theory Spec2Isabelle
  imports Main
begin

section \<open>Data model (backend/models: Event, Registration, User, Organizer)\<close>

text \<open>
  Dates are milliseconds since the epoch (what JavaScript compares when two \<open>Date\<close>
  objects meet \<open><\<close>), object ids are natural numbers, and the schema's string enums are
  datatypes. Numbers are integers.
\<close>

datatype status = Draft | Published | Ongoing | Completed | Closed

datatype event_type = Normal | Merchandise

datatype eligibility_t = IIIT | NonIIIT | AllParticipants

datatype participant_type = PIIIT | PNonIIIT

datatype payment_status = NotApplicable | Pending | Approved | Rejected

datatype field_type = FText | FDropdown | FCheckbox | FFile

record formField =
  label :: string
  fieldType :: field_type
  isRequired :: bool
  options :: "string list"

record variant =
  vid :: nat
  vsize :: string
  color :: string
  stock :: int
  price :: int

record event =
  eid :: nat
  name :: string
  description :: string
  etype :: event_type
  organizerId :: nat
  eligibility :: eligibility_t
  tags :: "string list"
  registrationDeadline :: int
  startDate :: int
  endDate :: int
  registrationLimit :: "int option"
  statusOverride :: status
  registrationFee :: int
  customForm :: "formField list"
  isFormLocked :: bool
  merchandiseVariants :: "variant list"
  purchaseLimitPerUser :: int
  requiresPaymentApproval :: bool

record registration =
  rid :: nat
  eventId :: nat
  participantId :: nat
  ticketId :: "string option"
  formData :: "(string \<times> string) list"
  variantId :: "nat option"
  quantity :: int
  paymentProofUrl :: "string option"
  paymentStatus :: payment_status
  attended :: bool
  attendanceTimestamp :: "int option"
  manualOverride :: bool
  overrideReason :: "string option"
  overriddenBy :: "nat option"

record user =
  uid :: nat
  email :: string
  firstName :: string
  participantType :: "participant_type option"

record organizer =
  oid :: nat
  userId :: nat

text \<open>The database: one list of documents per collection.\<close>

record db =
  events :: "event list"
  registrations :: "registration list"
  users :: "user list"
  organizers :: "organizer list"

section \<open>Status resolver (routes/event.js, getEffectiveStatus)\<close>

text \<open>
  The source reads the clock with \<open>new Date()\<close>; the reading is the argument \<open>now\<close>.
\<close>

definition getEffectiveStatus :: "event \<Rightarrow> int \<Rightarrow> status" where
  "getEffectiveStatus event now =
     (if statusOverride event \<in> set [Draft, Closed] then statusOverride event
      else if statusOverride event = Completed then Completed
      else if now < startDate event then Published
      else if now \<ge> startDate event \<and> now \<le> endDate event then Ongoing
      else Completed)"

text \<open>
  The case analysis of the specification (section 4.1), written from its words: the
  cases are read in the order they are listed.
\<close>

definition effectiveStatus_spec :: "status \<Rightarrow> int \<Rightarrow> int \<Rightarrow> int \<Rightarrow> status" where
  "effectiveStatus_spec override start end now =
     (case override of
        Draft \<Rightarrow> Draft
      | Closed \<Rightarrow> Closed
      | Completed \<Rightarrow> Completed
      | _ \<Rightarrow> (if now < start then Published
              else if start \<le> now \<and> now \<le> end then Ongoing
              else Completed))"


section \<open>Responses\<close>

text \<open>
  Every \<open>return res.status(...).json({ message })\<close> of routes/event.js that is not a success
  is one constructor. \<open>ServerError\<close> is the \<open>catch\<close> block of a handler (status 500): an
  exception thrown by the storage layer or by reading a field of \<open>null\<close>.
\<close>

datatype error =
    OrganizerProfileNotFound
  | EventNotFound
  | NotAuthorized
  | CannotEditOncePublished string
  | CanOnlyExtendDeadline
  | CanOnlyIncreaseLimit
  | OnlyStatusCanBeChanged
  | OnlyDraftCanBeDeleted
  | UseOrderForMerchandise
  | RegistrationNotAvailable status
  | RegistrationDeadlinePassed
  | IIITOnly
  | NonIIITOnly
  | RegistrationLimitReached
  | AlreadyRegistered
  | MerchandiseOnly
  | OrdersNotAvailable status
  | OrderDeadlinePassed
  | VariantIdRequired
  | VariantNotFound
  | PurchaseLimit int
  | ActiveOrderExists
  | InsufficientStock
  | ProofUrlRequired
  | OrderNotFound
  | OnlyPendingProof
  | OnlyPendingApproved
  | InsufficientStockToApprove
  | OnlyPendingRejected
  | TicketIdRequired
  | TicketNotFound
  | DifferentEvent
  | DuplicateScan "int option" nat
  | AttendedAndReasonRequired
  | RegistrationNotFound
  | ServerError

fun http_status :: "error \<Rightarrow> nat" where
  "http_status OrganizerProfileNotFound = 404"
| "http_status EventNotFound = 404"
| "http_status VariantNotFound = 404"
| "http_status OrderNotFound = 404"
| "http_status TicketNotFound = 404"
| "http_status RegistrationNotFound = 404"
| "http_status NotAuthorized = 403"
| "http_status IIITOnly = 403"
| "http_status NonIIITOnly = 403"
| "http_status (DuplicateScan t p) = 409"
| "http_status ServerError = 500"
| "http_status e = 400"

section \<open>Storage layer (mongoose models)\<close>

definition findById :: "event list \<Rightarrow> nat \<Rightarrow> event option" where
  "findById evs k = find (\<lambda>e. eid e = k) evs"

definition event_save :: "event \<Rightarrow> event list \<Rightarrow> event list" where
  "event_save ev evs = map (\<lambda>e. if eid e = eid ev then ev else e) evs"

text \<open>A new document gets an object id that no document of the collection has.\<close>

definition fresh_id :: "nat list \<Rightarrow> nat" where
  "fresh_id ids = Suc (fold max ids 0)"

definition findOrganizer :: "organizer list \<Rightarrow> nat \<Rightarrow> organizer option" where
  "findOrganizer os u = find (\<lambda>g. userId g = u) os"

definition findUser :: "user list \<Rightarrow> nat \<Rightarrow> user option" where
  "findUser us u = find (\<lambda>p. uid p = u) us"

text \<open>The defaults of registrationSchema.\<close>

definition registration_defaults :: "nat \<Rightarrow> nat \<Rightarrow> registration" where
  "registration_defaults e p =
     \<lparr>rid = 0, eventId = e, participantId = p, ticketId = None, formData = [],
      variantId = None, quantity = 1, paymentProofUrl = None,
      paymentStatus = NotApplicable, attended = False, attendanceTimestamp = None,
      manualOverride = False, overrideReason = None, overriddenBy = None\<rparr>"

text \<open>
  The two unique indexes of registrationSchema: the compound index
  \<open>{ eventId: 1, participantId: 1 }\<close> and the sparse index on \<open>ticketId\<close> (sparse: documents
  without a ticket are not indexed).
\<close>

definition index_event_participant :: "registration list \<Rightarrow> registration \<Rightarrow> bool" where
  "index_event_participant rs d =
     (\<forall>r \<in> set rs. \<not> (eventId r = eventId d \<and> participantId r = participantId d))"

definition index_ticketId :: "registration list \<Rightarrow> registration \<Rightarrow> bool" where
  "index_ticketId rs d =
     (ticketId d = None \<or> (\<forall>r \<in> set rs. rid r = rid d \<or> ticketId r \<noteq> ticketId d))"

text \<open>
  \<open>Registration.create\<close>: the insert is refused (a duplicate-key exception in the source)
  when a unique index would be violated.
\<close>

definition Registration_create ::
    "registration list \<Rightarrow> registration \<Rightarrow> (registration \<times> registration list) option" where
  "Registration_create rs d =
     (let doc = d\<lparr>rid := fresh_id (map rid rs)\<rparr>
      in if index_event_participant rs doc \<and> index_ticketId rs doc
         then Some (doc, rs @ [doc]) else None)"

definition registration_save :: "registration \<Rightarrow> registration list \<Rightarrow> registration list" where
  "registration_save reg rs = map (\<lambda>r. if rid r = rid reg then reg else r) rs"

definition variant_by_id :: "variant list \<Rightarrow> nat \<Rightarrow> variant option" where
  "variant_by_id vs k = find (\<lambda>v. vid v = k) vs"

text \<open>\<open>variant.stock -= quantity\<close> on the sub-document that \<open>.id(variantId)\<close> returned.\<close>

fun dec_stock :: "nat \<Rightarrow> int \<Rightarrow> variant list \<Rightarrow> variant list" where
  "dec_stock k q [] = []"
| "dec_stock k q (v # vs) =
     (if vid v = k then v\<lparr>stock := stock v - q\<rparr> # vs else v # dec_stock k q vs)"

text \<open>
  The three steps that open every organizer handler: the caller has an organizer profile,
  the event exists, and the profile owns it.
\<close>

definition owns :: "db \<Rightarrow> nat \<Rightarrow> nat \<Rightarrow> event \<Rightarrow> bool" where
  "owns s caller k event =
     (case findOrganizer (organizers s) caller of
        None \<Rightarrow> False
      | Some org \<Rightarrow> findById (events s) k = Some event \<and> organizerId event = oid org)"

section \<open>Creating, editing and deleting an event\<close>

text \<open>
  The handlers run behind authMiddleware and roleMiddleware; \<open>caller\<close> is \<open>req.user.id\<close>.
  A handler returns its response and the database it leaves behind. A request runs from
  its first line to its response without another request in between, and it reads the
  clock once (\<open>now\<close>). Values in a request body have the type the schema gives their
  key.
\<close>

text \<open>
  The validators of eventSchema that a well-typed value can fail: \<open>name\<close> and
  \<open>description\<close> are required (mongoose refuses the empty string), a form field's
  \<open>label\<close> is required, a variant's \<open>stock\<close> and \<open>price\<close> have \<open>min: 0\<close>. \<open>Event.create\<close>
  and \<open>event.save()\<close> run them and throw when one fails; the handler's \<open>catch\<close> answers
  500 then and nothing is stored.
\<close>

definition validate :: "event \<Rightarrow> bool" where
  "validate e =
     (name e \<noteq> [] \<and> description e \<noteq> []
      \<and> (\<forall>f \<in> set (customForm e). label f \<noteq> [])
      \<and> (\<forall>v \<in> set (merchandiseVariants e). 0 \<le> stock v \<and> 0 \<le> price v))"

definition createEvent :: "db \<Rightarrow> nat \<Rightarrow> event \<Rightarrow> (error + event) \<times> db" where
  "createEvent s caller body =
     (case findOrganizer (organizers s) caller of
        None \<Rightarrow> (Inl OrganizerProfileNotFound, s)
      | Some org \<Rightarrow>
          let event = body\<lparr>eid := fresh_id (map eid (events s)), organizerId := oid org,
                            statusOverride := Draft\<rparr>
          in if \<not> validate event then (Inl ServerError, s)
             else (Inr event, s\<lparr>events := events s @ [event]\<rparr>))"

text \<open>
  The body of an edit request is a list of key/value pairs in the order of
  \<open>Object.keys(updates)\<close>; a value has the type the schema gives its key. \<open>U_other k\<close> is a
  key \<open>k\<close> that the schema does not have (an assignment to it is not persisted).
\<close>

datatype field_update =
    U_name string
  | U_description string
  | U_type event_type
  | U_organizerId nat
  | U_eligibility eligibility_t
  | U_tags "string list"
  | U_registrationDeadline int
  | U_startDate int
  | U_endDate int
  | U_registrationLimit int
  | U_statusOverride status
  | U_registrationFee int
  | U_customForm "formField list"
  | U_isFormLocked bool
  | U_merchandiseVariants "variant list"
  | U_purchaseLimitPerUser int
  | U_requiresPaymentApproval bool
  | U_other string

fun key_of :: "field_update \<Rightarrow> string" where
  "key_of (U_name v) = ''name''"
| "key_of (U_description v) = ''description''"
| "key_of (U_type v) = ''type''"
| "key_of (U_organizerId v) = ''organizerId''"
| "key_of (U_eligibility v) = ''eligibility''"
| "key_of (U_tags v) = ''tags''"
| "key_of (U_registrationDeadline v) = ''registrationDeadline''"
| "key_of (U_startDate v) = ''startDate''"
| "key_of (U_endDate v) = ''endDate''"
| "key_of (U_registrationLimit v) = ''registrationLimit''"
| "key_of (U_statusOverride v) = ''statusOverride''"
| "key_of (U_registrationFee v) = ''registrationFee''"
| "key_of (U_customForm v) = ''customForm''"
| "key_of (U_isFormLocked v) = ''isFormLocked''"
| "key_of (U_merchandiseVariants v) = ''merchandiseVariants''"
| "key_of (U_purchaseLimitPerUser v) = ''purchaseLimitPerUser''"
| "key_of (U_requiresPaymentApproval v) = ''requiresPaymentApproval''"
| "key_of (U_other k) = k"

text \<open>\<open>event[key] = updates[key]\<close>.\<close>

fun assign :: "event \<Rightarrow> field_update \<Rightarrow> event" where
  "assign e (U_name v) = e\<lparr>name := v\<rparr>"
| "assign e (U_description v) = e\<lparr>description := v\<rparr>"
| "assign e (U_type v) = e\<lparr>etype := v\<rparr>"
| "assign e (U_organizerId v) = e\<lparr>organizerId := v\<rparr>"
| "assign e (U_eligibility v) = e\<lparr>eligibility := v\<rparr>"
| "assign e (U_tags v) = e\<lparr>tags := v\<rparr>"
| "assign e (U_registrationDeadline v) = e\<lparr>registrationDeadline := v\<rparr>"
| "assign e (U_startDate v) = e\<lparr>startDate := v\<rparr>"
| "assign e (U_endDate v) = e\<lparr>endDate := v\<rparr>"
| "assign e (U_registrationLimit v) = e\<lparr>registrationLimit := Some v\<rparr>"
| "assign e (U_statusOverride v) = e\<lparr>statusOverride := v\<rparr>"
| "assign e (U_registrationFee v) = e\<lparr>registrationFee := v\<rparr>"
| "assign e (U_customForm v) = e\<lparr>customForm := v\<rparr>"
| "assign e (U_isFormLocked v) = e\<lparr>isFormLocked := v\<rparr>"
| "assign e (U_merchandiseVariants v) = e\<lparr>merchandiseVariants := v\<rparr>"
| "assign e (U_purchaseLimitPerUser v) = e\<lparr>purchaseLimitPerUser := v\<rparr>"
| "assign e (U_requiresPaymentApproval v) = e\<lparr>requiresPaymentApproval := v\<rparr>"
| "assign e (U_other k) = e"

text \<open>\<open>Object.assign(event, updates)\<close>.\<close>

definition Object_assign :: "event \<Rightarrow> field_update list \<Rightarrow> event" where
  "Object_assign e us = fold (\<lambda>u e'. assign e' u) us e"

definition allowed :: "string list" where
  "allowed = [''description'', ''registrationDeadline'', ''registrationLimit'', ''statusOverride'']"

text \<open>
  \<open>updates[key] < event.registrationLimit\<close>: a comparison with \<open>undefined\<close> (no limit
  stored) is false.
\<close>

definition below_limit :: "int \<Rightarrow> int option \<Rightarrow> bool" where
  "below_limit v lim = (case lim of None \<Rightarrow> False | Some l \<Rightarrow> v < l)"

text \<open>
  The loop of the Published branch over \<open>Object.keys(updates)\<close>. It works on the document in
  memory; a \<open>return\<close> inside it leaves the handler before \<open>event.save()\<close>.
\<close>

fun published_loop :: "event \<Rightarrow> field_update list \<Rightarrow> error + event" where
  "published_loop event [] = Inr event"
| "published_loop event (u # us) =
     (if key_of u \<notin> set allowed then Inl (CannotEditOncePublished (key_of u))
      else if (case u of U_registrationDeadline v \<Rightarrow> v < registrationDeadline event
                       | _ \<Rightarrow> False)
        then Inl CanOnlyExtendDeadline
      else if (case u of U_registrationLimit v \<Rightarrow> below_limit v (registrationLimit event)
                       | _ \<Rightarrow> False)
        then Inl CanOnlyIncreaseLimit
      else published_loop (assign event u) us)"

text \<open>
  The validator of the path that an assignment has modified, on the document as it is
  when \<open>event.save()\<close> is called. A stored document has passed every validator, so a
  save can fail only on a path that the request has assigned. (The other handlers save an
  event after changing \<open>isFormLocked\<close>, which has no validator, or after lowering a stock
  by a quantity that they have just tested not to exceed it.)
\<close>

fun path_valid :: "event \<Rightarrow> field_update \<Rightarrow> bool" where
  "path_valid e (U_name v) = (name e \<noteq> [])"
| "path_valid e (U_description v) = (description e \<noteq> [])"
| "path_valid e (U_customForm v) = (\<forall>f \<in> set (customForm e). label f \<noteq> [])"
| "path_valid e (U_merchandiseVariants v) =
     (\<forall>x \<in> set (merchandiseVariants e). 0 \<le> stock x \<and> 0 \<le> price x)"
| "path_valid e u = True"

text \<open>
  \<open>router.put("/:id")\<close>. \<open>saved modified e\<close> is \<open>await event.save()\<close> followed by the answer
  "Saved."; \<open>modified\<close> are the assignments the branch has made. The webhook call after a
  first publication is fire-and-forget and touches no stored data; it is left out.
\<close>

definition editEvent ::
    "db \<Rightarrow> nat \<Rightarrow> nat \<Rightarrow> field_update list \<Rightarrow> int \<Rightarrow> (error + event) \<times> db" where
  "editEvent s caller k updates now =
     (case findOrganizer (organizers s) caller of
        None \<Rightarrow> (Inl OrganizerProfileNotFound, s)
      | Some org \<Rightarrow>
     (case findById (events s) k of
        None \<Rightarrow> (Inl EventNotFound, s)
      | Some event \<Rightarrow>
          if organizerId event \<noteq> oid org then (Inl NotAuthorized, s)
          else
            let currentStatus = getEffectiveStatus event now;
                saved = (\<lambda>modified e.
                           if \<forall>u \<in> set modified. path_valid e u
                           then (Inr e, s\<lparr>events := event_save e (events s)\<rparr>)
                           else (Inl ServerError, s))
            in if currentStatus = Draft then saved updates (Object_assign event updates)
               else if currentStatus = Published then
                 (case published_loop event updates of
                    Inl err \<Rightarrow> (Inl err, s)
                  | Inr e \<Rightarrow> saved updates e)
               else if currentStatus \<in> set [Ongoing, Completed] then
                 (case updates of
                    [U_statusOverride v] \<Rightarrow>
                      saved [U_statusOverride v] (event\<lparr>statusOverride := v\<rparr>)
                  | _ \<Rightarrow> (Inl OnlyStatusCanBeChanged, s))
               else saved [] event))"


text \<open>\<open>router.delete("/:id")\<close>.\<close>

definition deleteEvent :: "db \<Rightarrow> nat \<Rightarrow> nat \<Rightarrow> int \<Rightarrow> (error + unit) \<times> db" where
  "deleteEvent s caller k now =
     (case findOrganizer (organizers s) caller of
        None \<Rightarrow> (Inl OrganizerProfileNotFound, s)
      | Some org \<Rightarrow>
     (case findById (events s) k of
        None \<Rightarrow> (Inl EventNotFound, s)
      | Some event \<Rightarrow>
          if organizerId event \<noteq> oid org then (Inl NotAuthorized, s)
          else if getEffectiveStatus event now \<noteq> Draft then (Inl OnlyDraftCanBeDeleted, s)
          else (Inr (),
                s\<lparr>events := filter (\<lambda>e. eid e \<noteq> k) (events s),
                  registrations := filter (\<lambda>r. eventId r \<noteq> k) (registrations s)\<rparr>)))"

section \<open>Registration and merchandise orders\<close>

text \<open>
  \<open>generateTicketId()\<close> reads the clock and \<open>Math.random()\<close>: \<open>ms\<close> is the decimal
  rendering of \<open>Date.now()\<close> and \<open>rnd\<close> the upper-cased base-36 fragment. A handler that
  issues a ticket takes the two readings as arguments.
\<close>

definition generateTicketId :: "string \<Rightarrow> string \<Rightarrow> string" where
  "generateTicketId ms rnd = ''TKT-'' @ ms @ ''-'' @ rnd"

text \<open>
  The two eligibility tests, the same in both handlers. \<open>participant\<close> is the result of
  \<open>User.findById(req.user.id)\<close>; reading \<open>participantType\<close> of \<open>null\<close> throws.
\<close>

definition eligibility_check :: "event \<Rightarrow> user option \<Rightarrow> error option" where
  "eligibility_check event participant =
     (if eligibility event = IIIT then
        (case participant of
           None \<Rightarrow> Some ServerError
         | Some p \<Rightarrow> if participantType p \<noteq> Some PIIIT then Some IIITOnly else None)
      else if eligibility event = NonIIIT then
        (case participant of
           None \<Rightarrow> Some ServerError
         | Some p \<Rightarrow> if participantType p \<noteq> Some PNonIIIT then Some NonIIITOnly else None)
      else None)"

definition countDocuments :: "registration list \<Rightarrow> nat \<Rightarrow> int" where
  "countDocuments rs k = int (length (filter (\<lambda>r. eventId r = k) rs))"

definition findRegistration :: "registration list \<Rightarrow> nat \<Rightarrow> nat \<Rightarrow> registration option" where
  "findRegistration rs k p = find (\<lambda>r. eventId r = k \<and> participantId r = p) rs"

text \<open>
  \<open>router.post("/:id/register")\<close>. The last step reads \<open>participant.email\<close> for the
  (fire-and-forget) ticket mail.
\<close>

definition register ::
    "db \<Rightarrow> nat \<Rightarrow> nat \<Rightarrow> (string \<times> string) list \<Rightarrow> int \<Rightarrow> string \<Rightarrow> string
      \<Rightarrow> (error + registration) \<times> db" where
  "register s caller k form now ms rnd =
     (let participant = findUser (users s) caller in
      case findById (events s) k of
        None \<Rightarrow> (Inl EventNotFound, s)
      | Some event \<Rightarrow>
          if etype event \<noteq> Normal then (Inl UseOrderForMerchandise, s)
          else if getEffectiveStatus event now \<notin> set [Published, Ongoing]
            then (Inl (RegistrationNotAvailable (getEffectiveStatus event now)), s)
          else if now > registrationDeadline event then (Inl RegistrationDeadlinePassed, s)
          else
     (case eligibility_check event participant of
        Some err \<Rightarrow> (Inl err, s)
      | None \<Rightarrow>
          if (case registrationLimit event of
                None \<Rightarrow> False
              | Some lim \<Rightarrow> lim \<noteq> 0 \<and> countDocuments (registrations s) (eid event) \<ge> lim)
            then (Inl RegistrationLimitReached, s)
          else if findRegistration (registrations s) (eid event) caller \<noteq> None
            then (Inl AlreadyRegistered, s)
          else
     (case Registration_create (registrations s)
             ((registration_defaults (eid event) caller)
                \<lparr>ticketId := Some (generateTicketId ms rnd), formData := form,
                  paymentStatus := NotApplicable\<rparr>) of
        None \<Rightarrow> (Inl ServerError, s)
      | Some (registration, rs) \<Rightarrow>
          let s1 = s\<lparr>registrations := rs\<rparr>;
              s2 = (if \<not> isFormLocked event
                    then s1\<lparr>events := event_save (event\<lparr>isFormLocked := True\<rparr>) (events s1)\<rparr>
                    else s1)
          in if participant = None then (Inl ServerError, s2)
             else (Inr registration, s2))))"

text \<open>
  \<open>router.post("/:id/order")\<close>. \<open>variantId\<close> and \<open>quantity\<close> come from the request body;
  a body without \<open>quantity\<close> means 1.
\<close>

definition placeOrder ::
    "db \<Rightarrow> nat \<Rightarrow> nat \<Rightarrow> nat option \<Rightarrow> int option \<Rightarrow> int \<Rightarrow> string \<Rightarrow> string
      \<Rightarrow> (error + registration) \<times> db" where
  "placeOrder s caller k variantId_req quantity_req now ms rnd =
     (let participant = findUser (users s) caller in
      case findById (events s) k of
        None \<Rightarrow> (Inl EventNotFound, s)
      | Some event \<Rightarrow>
          if etype event \<noteq> Merchandise then (Inl MerchandiseOnly, s)
          else if getEffectiveStatus event now \<notin> set [Published, Ongoing]
            then (Inl (OrdersNotAvailable (getEffectiveStatus event now)), s)
          else if now > registrationDeadline event then (Inl OrderDeadlinePassed, s)
          else
     (case eligibility_check event participant of
        Some err \<Rightarrow> (Inl err, s)
      | None \<Rightarrow>
     (let qty = (case quantity_req of None \<Rightarrow> 1 | Some q \<Rightarrow> q) in
      case variantId_req of
        None \<Rightarrow> (Inl VariantIdRequired, s)
      | Some v \<Rightarrow>
     (case variant_by_id (merchandiseVariants event) v of
        None \<Rightarrow> (Inl VariantNotFound, s)
      | Some variant \<Rightarrow>
          let pastOrders = filter (\<lambda>r. eventId r = eid event \<and> participantId r = caller)
                             (registrations s);
              totalBought = sum_list (map quantity pastOrders)
          in if totalBought + qty > purchaseLimitPerUser event
               then (Inl (PurchaseLimit (purchaseLimitPerUser event)), s)
             else if findRegistration (registrations s) (eid event) caller \<noteq> None
               then (Inl ActiveOrderExists, s)
             else if requiresPaymentApproval event then
               (case Registration_create (registrations s)
                       ((registration_defaults (eid event) caller)
                          \<lparr>variantId := Some v, quantity := qty, paymentStatus := Pending\<rparr>) of
                  None \<Rightarrow> (Inl ServerError, s)
                | Some (registration, rs) \<Rightarrow> (Inr registration, s\<lparr>registrations := rs\<rparr>))
             else if stock variant < qty then (Inl InsufficientStock, s)
             else
               let s1 = s\<lparr>events := event_save
                           (event\<lparr>merchandiseVariants :=
                                     dec_stock v qty (merchandiseVariants event)\<rparr>)
                           (events s)\<rparr>
               in (case Registration_create (registrations s1)
                         ((registration_defaults (eid event) caller)
                            \<lparr>ticketId := Some (generateTicketId ms rnd),
                              variantId := Some v, quantity := qty,
                              paymentStatus := Approved\<rparr>) of
                     None \<Rightarrow> (Inl ServerError, s1)
                   | Some (registration, rs) \<Rightarrow>
                       if participant = None
                         then (Inl ServerError, s1\<lparr>registrations := rs\<rparr>)
                       else (Inr registration, s1\<lparr>registrations := rs\<rparr>))))))"

text \<open>
  The guards that both handlers apply before they look at capacity or stock, negated
  returns collected: the event has the kind the endpoint serves, is Published or Ongoing,
  the deadline has not passed and the participant is eligible.
\<close>

definition accepting :: "db \<Rightarrow> nat \<Rightarrow> event \<Rightarrow> event_type \<Rightarrow> int \<Rightarrow> bool" where
  "accepting s caller event kind now =
     (etype event = kind
      \<and> getEffectiveStatus event now \<in> set [Published, Ongoing]
      \<and> now \<le> registrationDeadline event
      \<and> eligibility_check event (findUser (users s) caller) = None)"

text \<open>No stored registration holds the ticket: the generated identifier is new.\<close>

definition unused_ticket :: "db \<Rightarrow> string \<Rightarrow> bool" where
  "unused_ticket s tkt = (Some tkt \<notin> set (map ticketId (registrations s)))"

section \<open>Order approval workflow\<close>

definition findOrder :: "registration list \<Rightarrow> nat \<Rightarrow> nat \<Rightarrow> registration option" where
  "findOrder rs regId k = find (\<lambda>r. rid r = regId \<and> eventId r = k) rs"

text \<open>\<open>router.patch("/:id/orders/:regId/proof")\<close>; an empty or missing URL is falsy.\<close>

definition uploadProof ::
    "db \<Rightarrow> nat \<Rightarrow> nat \<Rightarrow> nat \<Rightarrow> string \<Rightarrow> (error + registration) \<times> db" where
  "uploadProof s caller k regId url =
     (if url = [] then (Inl ProofUrlRequired, s)
      else case find (\<lambda>r. rid r = regId \<and> eventId r = k \<and> participantId r = caller)
                  (registrations s) of
        None \<Rightarrow> (Inl OrderNotFound, s)
      | Some reg \<Rightarrow>
          if paymentStatus reg \<noteq> Pending then (Inl OnlyPendingProof, s)
          else let reg' = reg\<lparr>paymentProofUrl := Some url\<rparr>
               in (Inr reg', s\<lparr>registrations := registration_save reg' (registrations s)\<rparr>))"

text \<open>
  \<open>router.put("/:id/orders/:regId/approve")\<close>. \<open>event.save()\<close> comes before \<open>reg.save()\<close>,
  which the unique index on \<open>ticketId\<close> can refuse; the ticket mail reads the participant's
  document.
\<close>

definition approveOrder ::
    "db \<Rightarrow> nat \<Rightarrow> nat \<Rightarrow> nat \<Rightarrow> string \<Rightarrow> string \<Rightarrow> (error + string) \<times> db" where
  "approveOrder s caller k regId ms rnd =
     (case findOrganizer (organizers s) caller of
        None \<Rightarrow> (Inl OrganizerProfileNotFound, s)
      | Some org \<Rightarrow>
     (case findById (events s) k of
        None \<Rightarrow> (Inl EventNotFound, s)
      | Some event \<Rightarrow>
          if organizerId event \<noteq> oid org then (Inl NotAuthorized, s)
          else
     (case findOrder (registrations s) regId (eid event) of
        None \<Rightarrow> (Inl OrderNotFound, s)
      | Some reg \<Rightarrow>
          if paymentStatus reg \<noteq> Pending then (Inl OnlyPendingApproved, s)
          else
     (case (case variantId reg of
              None \<Rightarrow> None
            | Some v \<Rightarrow> map_option (Pair v) (variant_by_id (merchandiseVariants event) v)) of
        None \<Rightarrow> (Inl InsufficientStockToApprove, s)
      | Some (v, variant) \<Rightarrow>
          if stock variant < quantity reg then (Inl InsufficientStockToApprove, s)
          else
            let s1 = s\<lparr>events := event_save
                        (event\<lparr>merchandiseVariants :=
                                  dec_stock v (quantity reg) (merchandiseVariants event)\<rparr>)
                        (events s)\<rparr>;
                ticket = generateTicketId ms rnd;
                reg' = reg\<lparr>paymentStatus := Approved, ticketId := Some ticket\<rparr>
            in if \<not> index_ticketId (registrations s1) reg' then (Inl ServerError, s1)
               else
                 let s2 = s1\<lparr>registrations := registration_save reg' (registrations s1)\<rparr>
                 in if findUser (users s2) (participantId reg) = None
                      then (Inl ServerError, s2)
                    else (Inr ticket, s2)))))"

text \<open>\<open>router.put("/:id/orders/:regId/reject")\<close>.\<close>

definition rejectOrder :: "db \<Rightarrow> nat \<Rightarrow> nat \<Rightarrow> nat \<Rightarrow> (error + unit) \<times> db" where
  "rejectOrder s caller k regId =
     (case findOrganizer (organizers s) caller of
        None \<Rightarrow> (Inl OrganizerProfileNotFound, s)
      | Some org \<Rightarrow>
     (case findById (events s) k of
        None \<Rightarrow> (Inl EventNotFound, s)
      | Some event \<Rightarrow>
          if organizerId event \<noteq> oid org then (Inl NotAuthorized, s)
          else
     (case findOrder (registrations s) regId (eid event) of
        None \<Rightarrow> (Inl OrderNotFound, s)
      | Some reg \<Rightarrow>
          if paymentStatus reg \<noteq> Pending then (Inl OnlyPendingRejected, s)
          else (Inr (),
                s\<lparr>registrations :=
                    registration_save (reg\<lparr>paymentStatus := Rejected\<rparr>) (registrations s)\<rparr>))))"

text \<open>The stock of variant \<open>v\<close> of event \<open>k\<close> as stored.\<close>

definition stock_of :: "db \<Rightarrow> nat \<Rightarrow> nat \<Rightarrow> int option" where
  "stock_of s k v =
     (case findById (events s) k of
        None \<Rightarrow> None
      | Some event \<Rightarrow> map_option stock (variant_by_id (merchandiseVariants event) v))"

text \<open>
  The condition of the specification (section 4.5) for an approval to go through: the
  order is Pending and its variant exists with stock for the ordered quantity.
\<close>

definition approvable :: "event \<Rightarrow> registration \<Rightarrow> bool" where
  "approvable event reg =
     (paymentStatus reg = Pending
      \<and> (case variantId reg of
           None \<Rightarrow> False
         | Some v \<Rightarrow>
             (case variant_by_id (merchandiseVariants event) v of
                None \<Rightarrow> False
              | Some variant \<Rightarrow> stock variant \<ge> quantity reg)))"

text \<open>A registration other than \<open>regId\<close> holds the ticket \<open>t\<close>.\<close>

definition ticket_taken :: "db \<Rightarrow> nat \<Rightarrow> string \<Rightarrow> bool" where
  "ticket_taken s regId t = (\<exists>r \<in> set (registrations s). rid r \<noteq> regId \<and> ticketId r = Some t)"

section \<open>Attendance\<close>

text \<open>
  The success body of a scan: participant, attendanceTimestamp and the live dashboard
  (totalRegistrations, scanned, remaining).
\<close>

datatype scan_ok = AttendanceMarked nat "int option" int int int

text \<open>\<open>router.post("/:id/scan")\<close>; an empty or missing ticketId is falsy.\<close>

definition scan :: "db \<Rightarrow> nat \<Rightarrow> nat \<Rightarrow> string \<Rightarrow> int \<Rightarrow> (error + scan_ok) \<times> db" where
  "scan s caller k tid now =
     (if tid = [] then (Inl TicketIdRequired, s)
      else case findOrganizer (organizers s) caller of
        None \<Rightarrow> (Inl OrganizerProfileNotFound, s)
      | Some org \<Rightarrow>
     (case findById (events s) k of
        None \<Rightarrow> (Inl EventNotFound, s)
      | Some event \<Rightarrow>
          if organizerId event \<noteq> oid org then (Inl NotAuthorized, s)
          else
     (case find (\<lambda>r. ticketId r = Some tid) (registrations s) of
        None \<Rightarrow> (Inl TicketNotFound, s)
      | Some reg \<Rightarrow>
          if eventId reg \<noteq> k then (Inl DifferentEvent, s)
          else if attended reg
            then (Inl (DuplicateScan (attendanceTimestamp reg) (participantId reg)), s)
          else
            let reg' = reg\<lparr>attended := True, attendanceTimestamp := Some now\<rparr>;
                s1 = s\<lparr>registrations := registration_save reg' (registrations s)\<rparr>;
                totalRegs = countDocuments (registrations s1) (eid event);
                totalScanned = int (length (filter (\<lambda>r. eventId r = eid event \<and> attended r)
                                              (registrations s1)))
            in (Inr (AttendanceMarked (participantId reg') (attendanceTimestamp reg')
                       totalRegs totalScanned (totalRegs - totalScanned)), s1))))"

text \<open>
  \<open>router.put("/:id/attendance/:regId/override")\<close>. \<open>attended_req\<close> is \<open>None\<close> when the body's
  \<open>attended\<close> is not a boolean.
\<close>

definition attendanceOverride ::
    "db \<Rightarrow> nat \<Rightarrow> nat \<Rightarrow> nat \<Rightarrow> bool option \<Rightarrow> string \<Rightarrow> int
      \<Rightarrow> (error + registration) \<times> db" where
  "attendanceOverride s caller k regId attended_req reason now =
     (case attended_req of
        None \<Rightarrow> (Inl AttendedAndReasonRequired, s)
      | Some att \<Rightarrow>
          if reason = [] then (Inl AttendedAndReasonRequired, s)
          else
     (case findOrganizer (organizers s) caller of
        None \<Rightarrow> (Inl OrganizerProfileNotFound, s)
      | Some org \<Rightarrow>
     (case findById (events s) k of
        None \<Rightarrow> (Inl EventNotFound, s)
      | Some event \<Rightarrow>
          if organizerId event \<noteq> oid org then (Inl NotAuthorized, s)
          else
     (case findOrder (registrations s) regId (eid event) of
        None \<Rightarrow> (Inl RegistrationNotFound, s)
      | Some reg \<Rightarrow>
          let reg' = reg\<lparr>attended := att,
                          attendanceTimestamp := (if att then Some now else None),
                          manualOverride := True, overrideReason := Some reason,
                          overriddenBy := Some caller\<rparr>
          in (Inr reg', s\<lparr>registrations := registration_save reg' (registrations s)\<rparr>)))))"

section \<open>The requests of the event router as one transition system\<close>

datatype request =
    CreateEvent nat event
  | EditEvent nat nat "field_update list" int
  | DeleteEvent nat nat int
  | Register nat nat "(string \<times> string) list" int string string
  | PlaceOrder nat nat "nat option" "int option" int string string
  | UploadProof nat nat nat string
  | ApproveOrder nat nat nat string string
  | RejectOrder nat nat nat
  | Scan nat nat string int
  | AttendanceOverride nat nat nat "bool option" string int

fun step :: "db \<Rightarrow> request \<Rightarrow> db" where
  "step s (CreateEvent c body) = snd (createEvent s c body)"
| "step s (EditEvent c k us now) = snd (editEvent s c k us now)"
| "step s (DeleteEvent c k now) = snd (deleteEvent s c k now)"
| "step s (Register c k form now ms rnd) = snd (register s c k form now ms rnd)"
| "step s (PlaceOrder c k v q now ms rnd) = snd (placeOrder s c k v q now ms rnd)"
| "step s (UploadProof c k r url) = snd (uploadProof s c k r url)"
| "step s (ApproveOrder c k r ms rnd) = snd (approveOrder s c k r ms rnd)"
| "step s (RejectOrder c k r) = snd (rejectOrder s c k r)"
| "step s (Scan c k tid now) = snd (scan s c k tid now)"
| "step s (AttendanceOverride c k r a reason now) = snd (attendanceOverride s c k r a reason now)"

definition run :: "db \<Rightarrow> request list \<Rightarrow> db" where
  "run s reqs = fold (\<lambda>r s'. step s' r) reqs s"

section \<open>State predicates used by the properties\<close>

text \<open>How many registrations the pair (event \<open>k\<close>, participant \<open>p\<close>) has.\<close>

definition pair_count :: "db \<Rightarrow> nat \<Rightarrow> nat \<Rightarrow> nat" where
  "pair_count s k p =
     length (filter (\<lambda>r. eventId r = k \<and> participantId r = p) (registrations s))"

text \<open>
  The registration collection as the storage layer keeps it: object ids are unique, and so
  are the keys of the compound index.
\<close>

definition ledger_ok :: "db \<Rightarrow> bool" where
  "ledger_ok s =
     (distinct (map rid (registrations s))
      \<and> distinct (map (\<lambda>r. (eventId r, participantId r)) (registrations s)))"

text \<open>
  The ways in which a handler changes the registration collection: not at all, by an
  insert that the indexes let through, by saving a document it has found (object id,
  event and participant as before), by a deletion.
\<close>

inductive ledger_step :: "registration list \<Rightarrow> registration list \<Rightarrow> bool" where
  same: "ledger_step rs rs"
| created: "Registration_create rs d = Some (doc, rs') \<Longrightarrow> ledger_step rs rs'"
| saved: "find P rs = Some reg \<Longrightarrow> rid reg' = rid reg \<Longrightarrow> eventId reg' = eventId reg
    \<Longrightarrow> participantId reg' = participantId reg
    \<Longrightarrow> ledger_step rs (registration_save reg' rs)"
| deleted: "ledger_step rs (filter Q rs)"

text \<open>
  The ways in which a handler changes the event collection, seen from event \<open>k\<close>: a
  save of event \<open>k\<close> that keeps a locked form locked and the custom form as it is, a save
  of another event, a new event, a deletion.
\<close>

inductive form_step :: "nat \<Rightarrow> event list \<Rightarrow> event list \<Rightarrow> bool" where
  same: "form_step k evs evs"
| added: "form_step k evs (evs @ [e])"
| saved: "findById evs k = Some e \<Longrightarrow> eid e' = k \<Longrightarrow> (isFormLocked e \<longrightarrow> isFormLocked e')
    \<Longrightarrow> customForm e' = customForm e \<Longrightarrow> form_step k evs (event_save e' evs)"
| other: "eid e' \<noteq> k \<Longrightarrow> form_step k evs (event_save e' evs)"
| removed: "form_step k evs (filter (\<lambda>e. eid e \<noteq> k') evs)"

text \<open>Event \<open>k\<close> exists, its form is locked and its custom form is \<open>form\<close>.\<close>

definition locked :: "db \<Rightarrow> nat \<Rightarrow> formField list \<Rightarrow> bool" where
  "locked s k form =
     (case findById (events s) k of
        None \<Rightarrow> False
      | Some e \<Rightarrow> isFormLocked e \<and> customForm e = form)"

text \<open>The request is an edit of event \<open>k\<close> that arrives while the event is a Draft.\<close>

definition draft_edit :: "db \<Rightarrow> nat \<Rightarrow> request \<Rightarrow> bool" where
  "draft_edit s k req =
     (case req of
        EditEvent c k' us now \<Rightarrow>
          k' = k \<and> (case findById (events s) k of
                      None \<Rightarrow> False
                    | Some e \<Rightarrow> getEffectiveStatus e now = Draft)
      | _ \<Rightarrow> False)"

text \<open>
  A run in which event \<open>k\<close> is never edited as a Draft and exists after every request.
\<close>

fun undisturbed :: "db \<Rightarrow> nat \<Rightarrow> request list \<Rightarrow> bool" where
  "undisturbed s k [] = True"
| "undisturbed s k (req # reqs) =
     (\<not> draft_edit s k req \<and> findById (events (step s req)) k \<noteq> None
      \<and> undisturbed (step s req) k reqs)"

section \<open>Sample data\<close>

definition fest :: event where
  "fest = \<lparr>eid = 1, name = ''Fest'', description = ''Annual fest'', etype = Normal,
     organizerId = 7, eligibility = AllParticipants, tags = [],
     registrationDeadline = 90, startDate = 100, endDate = 200,
     registrationLimit = None, statusOverride = Published, registrationFee = 0,
     customForm = [], isFormLocked = False, merchandiseVariants = [],
     purchaseLimitPerUser = 1, requiresPaymentApproval = False\<rparr>"

definition tshirts :: event where
  "tshirts = \<lparr>eid = 2, name = ''T-shirts'', description = ''Fest merchandise'',
     etype = Merchandise, organizerId = 7, eligibility = AllParticipants, tags = [],
     registrationDeadline = 90, startDate = 100, endDate = 200,
     registrationLimit = None, statusOverride = Published, registrationFee = 0,
     customForm = [], isFormLocked = False,
     merchandiseVariants =
       [\<lparr>vid = 1, vsize = ''M'', color = ''red'', stock = 5, price = 300\<rparr>,
        \<lparr>vid = 2, vsize = ''L'', color = ''red'', stock = 1, price = 300\<rparr>],
     purchaseLimitPerUser = 3, requiresPaymentApproval = False\<rparr>"

definition alice :: user where
  "alice = \<lparr>uid = 10, email = ''alice@example.org'', firstName = ''Alice'',
     participantType = Some PIIIT\<rparr>"

definition bob :: user where
  "bob = \<lparr>uid = 11, email = ''bob@example.org'', firstName = ''Bob'',
     participantType = Some PNonIIIT\<rparr>"

text \<open>User 20 is the organizer who owns both events.\<close>

definition db0 :: db where
  "db0 = \<lparr>events = [fest, tshirts], registrations = [], users = [alice, bob],
     organizers = [\<lparr>oid = 7, userId = 20\<rparr>]\<rparr>"

definition alice_reg :: registration where
  "alice_reg = (registration_defaults 1 10)\<lparr>rid := 1, ticketId := Some ''TKT-50-AB''\<rparr>"

definition db1 :: db where
  "db1 = db0\<lparr>registrations := [alice_reg]\<rparr>"

text \<open>
  The same shop with payment approval, and Bob's pending order of two M shirts in it.
\<close>

definition bob_order :: registration where
  "bob_order = (registration_defaults 2 11)
     \<lparr>rid := 1, variantId := Some 1, quantity := 2, paymentStatus := Pending\<rparr>"

definition db2 :: db where
  "db2 = db0\<lparr>events := [fest, tshirts\<lparr>requiresPaymentApproval := True\<rparr>],
             registrations := [bob_order]\<rparr>"

text \<open>Alice's confirmed order of one M shirt.\<close>

definition alice_order :: registration where
  "alice_order = (registration_defaults 2 10)
     \<lparr>rid := 1, ticketId := Some ''TKT-50-AB'', variantId := Some 1, paymentStatus := Approved\<rparr>"

definition db3 :: db where
  "db3 = db0\<lparr>registrations := [alice_order]\<rparr>"

text \<open>The shop with the schema's default purchase limit of one item per participant.\<close>

definition db4 :: db where
  "db4 = db0\<lparr>events := [fest, tshirts\<lparr>purchaseLimitPerUser := 1\<rparr>]\<rparr>"

text \<open>
  Bob's pending order next to a registration of Alice that holds the ticket TKT-50-AB, and
  Bob's pending order after his account has gone.
\<close>

definition db5 :: db where
  "db5 = db2\<lparr>registrations := [bob_order, alice_reg\<lparr>rid := 2\<rparr>]\<rparr>"

definition db6 :: db where
  "db6 = db2\<lparr>users := [alice]\<rparr>"

section \<open>Properties of the status resolver\<close>

text \<open>
  C1. The effective status depends on the event only through statusOverride, startDate
  and endDate, and on the clock reading, and it equals the case analysis of the
  specification: Draft and Closed are returned unchanged, Completed is returned as
  Completed, and otherwise a time before the start gives Published, a time from the start
  to the end (both included) gives Ongoing, and a time after the end gives Completed.
  Hence Draft and Closed stay what they are at every time, an override of Completed
  gives Completed at every time, and an event that is Completed at some time is
  Completed at every later time.
\<close>

theorem getEffectiveStatus_case_analysis:
  "getEffectiveStatus event now =
     effectiveStatus_spec (statusOverride event) (startDate event) (endDate event) now
   \<and> (statusOverride event' = statusOverride event \<and> startDate event' = startDate event
        \<and> endDate event' = endDate event
        \<longrightarrow> getEffectiveStatus event' now = getEffectiveStatus event now)
   \<and> (statusOverride event \<in> {Draft, Closed}
        \<longrightarrow> getEffectiveStatus event now = statusOverride event
          \<and> getEffectiveStatus event now' = getEffectiveStatus event now)
   \<and> (statusOverride event = Completed \<longrightarrow> getEffectiveStatus event now = Completed)
   \<and> (statusOverride event \<in> {Published, Ongoing} \<longrightarrow>
         (now < startDate event \<longrightarrow> getEffectiveStatus event now = Published)
       \<and> (startDate event \<le> now \<and> now \<le> endDate event
            \<longrightarrow> getEffectiveStatus event now = Ongoing)
       \<and> (startDate event \<le> now \<and> endDate event < now
            \<longrightarrow> getEffectiveStatus event now = Completed)
       \<and> (startDate event \<le> endDate event \<and> endDate event < now
            \<longrightarrow> getEffectiveStatus event now = Completed))
   \<and> (getEffectiveStatus event now = Completed \<and> now \<le> now'
        \<longrightarrow> getEffectiveStatus event now' = Completed)"
  by (cases "statusOverride event")
     (auto simp: getEffectiveStatus_def effectiveStatus_spec_def split: if_splits)

theorem getEffectiveStatus_case_analysis_witness:
  "getEffectiveStatus fest 50 = Published
   \<and> getEffectiveStatus fest 100 = Ongoing
   \<and> getEffectiveStatus fest 200 = Ongoing
   \<and> getEffectiveStatus fest 201 = Completed
   \<and> getEffectiveStatus (fest\<lparr>name := ''Other''\<rparr>) 50 = getEffectiveStatus fest 50
   \<and> getEffectiveStatus (fest\<lparr>statusOverride := Closed\<rparr>) 50 = Closed
   \<and> getEffectiveStatus (fest\<lparr>statusOverride := Closed\<rparr>) 500 = Closed
   \<and> getEffectiveStatus (fest\<lparr>statusOverride := Completed\<rparr>) 50 = Completed
   \<and> getEffectiveStatus fest 900 = Completed"
  using getEffectiveStatus_case_analysis [of fest 50 "fest\<lparr>name := ''Other''\<rparr>" 60]
    getEffectiveStatus_case_analysis [of fest 100 fest 100]
    getEffectiveStatus_case_analysis [of fest 200 fest 200]
    getEffectiveStatus_case_analysis [of fest 201 fest 900]
    getEffectiveStatus_case_analysis [of "fest\<lparr>statusOverride := Closed\<rparr>" 50 fest 500]
    getEffectiveStatus_case_analysis [of "fest\<lparr>statusOverride := Completed\<rparr>" 50 fest 50]
  by (simp add: fest_def effectiveStatus_spec_def)

section \<open>Facts about the storage layer\<close>

lemma findById_eid: "findById evs k = Some e \<Longrightarrow> eid e = k"
  by (auto simp: findById_def find_Some_iff)

lemma findById_event_save:
  "findById evs k = Some e \<Longrightarrow> eid e' = k \<Longrightarrow> findById (event_save e' evs) k = Some e'"
  by (induction evs) (auto simp: findById_def event_save_def split: if_splits)

lemma find_registration_save:
  "find P rs = Some reg \<Longrightarrow> rid reg' = rid reg \<Longrightarrow> P reg'
    \<Longrightarrow> find P (registration_save reg' rs) = Some reg'"
  by (induction rs) (auto simp: registration_save_def split: if_splits)

lemma variant_by_id_dec_stock:
  "variant_by_id vs v = Some x
    \<Longrightarrow> variant_by_id (dec_stock v q vs) v = Some (x\<lparr>stock := stock x - q\<rparr>)"
  by (induction vs) (auto simp: variant_by_id_def split: if_splits)

lemma owns_unfold:
  "owns s caller k event \<Longrightarrow>
     \<exists>org. findOrganizer (organizers s) caller = Some org
       \<and> findById (events s) k = Some event \<and> organizerId event = oid org \<and> eid event = k"
  by (auto simp: owns_def findById_eid split: option.splits)

lemma owns_registrations_update [simp]:
  "owns (s\<lparr>registrations := rs\<rparr>) caller k event = owns s caller k event"
  by (simp add: owns_def split: option.splits)

lemma find_holds: "find P xs = Some x \<Longrightarrow> P x"
  by (induction xs) (auto split: if_splits)

lemma registration_defaults_sel [simp]:
  "eventId (registration_defaults e p) = e" "participantId (registration_defaults e p) = p"
  "ticketId (registration_defaults e p) = None" "quantity (registration_defaults e p) = 1"
  "paymentStatus (registration_defaults e p) = NotApplicable"
  "attended (registration_defaults e p) = False"
  "variantId (registration_defaults e p) = None"
  by (simp_all add: registration_defaults_def)

lemma Registration_create_succeeds:
  assumes "findRegistration rs k p = None" "eventId d = k" "participantId d = p"
    and "ticketId d = None \<or> (\<forall>r \<in> set rs. ticketId r \<noteq> ticketId d)"
  shows "Registration_create rs d = Some (d\<lparr>rid := fresh_id (map rid rs)\<rparr>, rs @ [d\<lparr>rid := fresh_id (map rid rs)\<rparr>])"
  using assms
  by (auto simp: Registration_create_def Let_def index_event_participant_def index_ticketId_def
      findRegistration_def find_None_iff)

lemma fold_max_ge: "a \<le> fold max xs (a::nat)"
  by (induction xs arbitrary: a) (auto intro: order_trans [OF max.cobounded2])

lemma fold_max_member: "x \<in> set xs \<Longrightarrow> x \<le> fold max xs (a::nat)"
proof (induction xs arbitrary: a)
  case Nil
  then show ?case by simp
next
  case (Cons y ys)
  show ?case
  proof (cases "x = y")
    case True
    have "y \<le> max y a" by simp
    also have "\<dots> \<le> fold max ys (max y a)" by (rule fold_max_ge)
    finally show ?thesis using True by simp
  next
    case False
    with Cons.prems have "x \<in> set ys" by simp
    from Cons.IH [OF this] show ?thesis by simp
  qed
qed

lemma fresh_id_fresh: "fresh_id ids \<notin> set ids"
proof
  assume "fresh_id ids \<in> set ids"
  from fold_max_member [OF this, of 0] show False by (simp add: fresh_id_def)
qed

lemma index_ticketId_fresh:
  "index_ticketId rs (d\<lparr>rid := fresh_id (map rid rs)\<rparr>)
     \<longleftrightarrow> (ticketId d = None \<or> (\<forall>r \<in> set rs. ticketId r \<noteq> ticketId d))"
proof -
  have "\<forall>r \<in> set rs. rid r \<noteq> fresh_id (map rid rs)"
    using fresh_id_fresh [of "map rid rs"] by force
  then show ?thesis by (auto simp: index_ticketId_def)
qed

lemma Registration_create_ticket_new:
  assumes "Registration_create rs d = Some (doc, rs')"
  shows "ticketId doc = ticketId d"
    and "ticketId d = Some t \<Longrightarrow> \<forall>r \<in> set rs. ticketId r \<noteq> Some t"
proof -
  from assms have doc: "doc = d\<lparr>rid := fresh_id (map rid rs)\<rparr>"
    and i: "index_ticketId rs (d\<lparr>rid := fresh_id (map rid rs)\<rparr>)"
    by (auto simp: Registration_create_def Let_def split: if_splits)
  show "ticketId doc = ticketId d" using doc by simp
  show "\<forall>r \<in> set rs. ticketId r \<noteq> Some t" if "ticketId d = Some t"
    using i that unfolding index_ticketId_fresh by auto
qed

lemma unused_ticket_iff:
  "unused_ticket s t \<longleftrightarrow> (\<forall>r \<in> set (registrations s). ticketId r \<noteq> Some t)"
  by (force simp: unused_ticket_def)

lemma Registration_create_used_ticket:
  "\<not> unused_ticket s t \<Longrightarrow> ticketId d = Some t \<Longrightarrow> Registration_create (registrations s) d = None"
  using index_ticketId_fresh [of "registrations s" d]
  by (auto simp: Registration_create_def Let_def unused_ticket_iff)

lemma generateTicketId_nonempty: "generateTicketId ms rnd \<noteq> []"
  by (simp add: generateTicketId_def)

section \<open>Attendance scanning\<close>

lemma scan_duplicate:
  assumes "owns s caller k event" "tid \<noteq> []"
    and "find (\<lambda>r. ticketId r = Some tid) (registrations s) = Some reg"
    and "eventId reg = k" "attended reg"
  shows "scan s caller k tid now
           = (Inl (DuplicateScan (attendanceTimestamp reg) (participantId reg)), s)"
  using owns_unfold [OF assms(1)] assms(2-)
  by (auto simp: scan_def Let_def)

lemma scan_first:
  assumes "owns s caller k event" "tid \<noteq> []"
    and "find (\<lambda>r. ticketId r = Some tid) (registrations s) = Some reg"
    and "eventId reg = k" "\<not> attended reg"
  shows "\<exists>total scanned remaining.
           scan s caller k tid now
             = (Inr (AttendanceMarked (participantId reg) (Some now) total scanned remaining),
                s\<lparr>registrations := registration_save
                     (reg\<lparr>attended := True, attendanceTimestamp := Some now\<rparr>) (registrations s)\<rparr>)"
  using owns_unfold [OF assms(1)] assms(2-)
  by (auto simp: scan_def Let_def)

lemma run_duplicate_scans:
  "(\<And>t. scan s caller k tid t = (Inl e, s)) \<Longrightarrow> run s (map (Scan caller k tid) moments) = s"
  by (induction moments) (simp_all add: run_def)

text \<open>
  C7. A scan, by the owner, of a ticket that belongs to the scanned event: if the
  registration is already marked attended, the scan changes nothing and answers with the
  duplicate-scan response (status 409) that carries the stored attendance timestamp; if it
  is not, the scan answers "attendance marked" with the current time and stores attended
  = true with that time, and every later scan of the ticket, at any time and any number of
  them in a row, is a duplicate scan carrying the time of the first one and changes
  nothing.
\<close>

theorem scan_idempotent:
  assumes o: "owns s caller k event" and t: "tid \<noteq> []"
    and f: "find (\<lambda>r. ticketId r = Some tid) (registrations s) = Some reg"
    and e: "eventId reg = k"
  shows "(attended reg \<longrightarrow>
            scan s caller k tid now
              = (Inl (DuplicateScan (attendanceTimestamp reg) (participantId reg)), s)
            \<and> http_status (DuplicateScan (attendanceTimestamp reg) (participantId reg)) = 409)
       \<and> (\<not> attended reg \<longrightarrow>
            (\<exists>total scanned remaining.
               fst (scan s caller k tid now)
                 = Inr (AttendanceMarked (participantId reg) (Some now) total scanned remaining))
          \<and> find (\<lambda>r. ticketId r = Some tid) (registrations (snd (scan s caller k tid now)))
              = Some (reg\<lparr>attended := True, attendanceTimestamp := Some now\<rparr>)
          \<and> (\<forall>later. scan (snd (scan s caller k tid now)) caller k tid later
                = (Inl (DuplicateScan (Some now) (participantId reg)),
                   snd (scan s caller k tid now)))
          \<and> (\<forall>moments. run (snd (scan s caller k tid now)) (map (Scan caller k tid) moments)
                = snd (scan s caller k tid now)))"
proof (intro conjI impI)
  assume a: "attended reg"
  show "scan s caller k tid now
          = (Inl (DuplicateScan (attendanceTimestamp reg) (participantId reg)), s)"
    using scan_duplicate [OF o t f e a] .
  show "http_status (DuplicateScan (attendanceTimestamp reg) (participantId reg)) = 409"
    by simp
next
  assume a: "\<not> attended reg"
  let ?reg = "reg\<lparr>attended := True, attendanceTimestamp := Some now\<rparr>"
  let ?s = "s\<lparr>registrations := registration_save ?reg (registrations s)\<rparr>"
  from scan_first [OF o t f e a, of now]
  obtain total scanned remaining where
    sc: "scan s caller k tid now
           = (Inr (AttendanceMarked (participantId reg) (Some now) total scanned remaining), ?s)"
    by blast
  have f': "find (\<lambda>r. ticketId r = Some tid) (registrations ?s) = Some ?reg"
    using find_registration_save [OF f, of ?reg] find_holds [OF f] by simp
  have dup: "scan ?s caller k tid later
               = (Inl (DuplicateScan (Some now) (participantId reg)), ?s)" for later
    using scan_duplicate [of ?s caller k event tid ?reg later] o t f' e by simp
  show "\<exists>total scanned remaining.
          fst (scan s caller k tid now)
            = Inr (AttendanceMarked (participantId reg) (Some now) total scanned remaining)"
    using sc by simp
  show "find (\<lambda>r. ticketId r = Some tid) (registrations (snd (scan s caller k tid now)))
          = Some ?reg"
    using sc f' by simp
  show "\<forall>later. scan (snd (scan s caller k tid now)) caller k tid later
          = (Inl (DuplicateScan (Some now) (participantId reg)), snd (scan s caller k tid now))"
    using sc dup by simp
  show "\<forall>moments. run (snd (scan s caller k tid now)) (map (Scan caller k tid) moments)
          = snd (scan s caller k tid now)"
    using sc run_duplicate_scans [of ?s caller k tid, OF dup] by simp
qed

theorem scan_idempotent_witness:
  "fst (scan db1 20 1 ''TKT-50-AB'' 150) = Inr (AttendanceMarked 10 (Some 150) 1 1 0)
   \<and> scan (snd (scan db1 20 1 ''TKT-50-AB'' 150)) 20 1 ''TKT-50-AB'' 160
       = (Inl (DuplicateScan (Some 150) 10), snd (scan db1 20 1 ''TKT-50-AB'' 150))
   \<and> run (snd (scan db1 20 1 ''TKT-50-AB'' 150))
         (map (Scan 20 1 ''TKT-50-AB'') [160, 170, 180])
       = snd (scan db1 20 1 ''TKT-50-AB'' 150)"
proof -
  have o: "owns db1 20 1 fest"
    by (simp add: owns_def db1_def db0_def findOrganizer_def findById_def fest_def)
  have f: "find (\<lambda>r. ticketId r = Some ''TKT-50-AB'') (registrations db1) = Some alice_reg"
    by (simp add: db1_def alice_reg_def)
  have e: "eventId alice_reg = 1" and a: "\<not> attended alice_reg"
    by (simp_all add: alice_reg_def)
  have n: "''TKT-50-AB'' \<noteq> []" by simp
  let ?s = "snd (scan db1 20 1 ''TKT-50-AB'' 150)"
  have first: "fst (scan db1 20 1 ''TKT-50-AB'' 150) = Inr (AttendanceMarked 10 (Some 150) 1 1 0)"
    by (simp add: scan_def db1_def db0_def findOrganizer_def findById_def fest_def tshirts_def
        alice_reg_def registration_save_def countDocuments_def Let_def registration_defaults_def)
  from scan_idempotent [OF o n f e, of 150] a
  have later: "\<forall>later. scan ?s 20 1 ''TKT-50-AB'' later = (Inl (DuplicateScan (Some 150) 10), ?s)"
    and all: "\<forall>moments. run ?s (map (Scan 20 1 ''TKT-50-AB'') moments) = ?s"
    by (simp_all add: alice_reg_def)
  from all have "run ?s (map (Scan 20 1 ''TKT-50-AB'') [160, 170, 180]) = ?s"
    by (rule spec)
  with first later show ?thesis by simp
qed

section \<open>Editing a Closed event\<close>

text \<open>
  C6. What the edit handler does for an event whose effective status is Closed: no branch
  of the status test applies, the unchanged document is saved, and the owner gets the
  success response "Saved." with the event as it was, whatever the request asked for.
\<close>

theorem editEvent_closed_reports_saved:
  assumes "owns s caller k event" "getEffectiveStatus event now = Closed"
  shows "fst (editEvent s caller k updates now) = Inr event
       \<and> findById (events (snd (editEvent s caller k updates now))) k = Some event
       \<and> registrations (snd (editEvent s caller k updates now)) = registrations s"
  using owns_unfold [OF assms(1)] assms(2)
  by (auto simp: editEvent_def Let_def findById_event_save)

theorem editEvent_closed_reports_saved_witness:
  "getEffectiveStatus (fest\<lparr>statusOverride := Closed\<rparr>) 150 = Closed
   \<and> editEvent (db0\<lparr>events := [fest\<lparr>statusOverride := Closed\<rparr>, tshirts]\<rparr>) 20 1
         [U_description ''New text''] 150
       = (Inr (fest\<lparr>statusOverride := Closed\<rparr>),
          db0\<lparr>events := [fest\<lparr>statusOverride := Closed\<rparr>, tshirts]\<rparr>)"
proof -
  let ?e = "fest\<lparr>statusOverride := Closed\<rparr>"
  let ?s = "db0\<lparr>events := [?e, tshirts]\<rparr>"
  have o: "owns ?s 20 1 ?e"
    by (simp add: owns_def db0_def findOrganizer_def findById_def fest_def)
  have c: "getEffectiveStatus ?e 150 = Closed"
    by (simp add: getEffectiveStatus_def)
  have "snd (editEvent ?s 20 1 [U_description ''New text''] 150) = ?s"
    by (simp add: editEvent_def db0_def findOrganizer_def findById_def fest_def tshirts_def
        getEffectiveStatus_def event_save_def Let_def)
  with editEvent_closed_reports_saved [OF o c, of "[U_description ''New text'']"] c
  show ?thesis by (simp add: prod_eq_iff)
qed

section \<open>Capacity of a normal event\<close>

lemma eligibility_check_errors:
  "eligibility_check event participant = Some err
    \<Longrightarrow> err = ServerError \<or> err = IIITOnly \<or> err = NonIIITOnly"
  by (auto simp: eligibility_check_def split: if_splits option.splits)

text \<open>
  C10. In the registration of a normal event the capacity test is made only when
  registrationLimit is a nonzero number. With no limit stored, or with a limit of 0, the
  handler never answers "Registration limit reached", and a request that passes the
  other guards is accepted however many registrations the event already has. With a
  nonzero limit that the count has reached, the same request is refused.
\<close>

theorem register_limit_zero_is_unlimited:
  assumes ev: "findById (events s) k = Some event"
  shows "(registrationLimit event = None \<or> registrationLimit event = Some 0 \<longrightarrow>
            fst (register s caller k form now ms rnd) \<noteq> Inl RegistrationLimitReached
          \<and> (accepting s caller event Normal now
              \<and> findRegistration (registrations s) k caller = None
              \<and> unused_ticket s (generateTicketId ms rnd) \<and> findUser (users s) caller \<noteq> None \<longrightarrow>
               (\<exists>reg. fst (register s caller k form now ms rnd) = Inr reg
                  \<and> ticketId reg = Some (generateTicketId ms rnd) \<and> eventId reg = k \<and> participantId reg = caller
                  \<and> registrations (snd (register s caller k form now ms rnd))
                      = registrations s @ [reg])))
       \<and> (\<forall>lim. registrationLimit event = Some lim \<and> lim \<noteq> 0
              \<and> countDocuments (registrations s) k \<ge> lim
              \<and> accepting s caller event Normal now \<longrightarrow>
            register s caller k form now ms rnd = (Inl RegistrationLimitReached, s))"
proof (intro conjI impI allI)
  have k: "eid event = k" using ev by (rule findById_eid)
  {
    assume lim: "registrationLimit event = None \<or> registrationLimit event = Some 0"
    show "fst (register s caller k form now ms rnd) \<noteq> Inl RegistrationLimitReached"
      using lim
      by (auto simp: register_def ev k Let_def split: option.splits prod.splits
          dest: eligibility_check_errors)
    assume g: "accepting s caller event Normal now
              \<and> findRegistration (registrations s) k caller = None
              \<and> unused_ticket s (generateTicketId ms rnd) \<and> findUser (users s) caller \<noteq> None"
    let ?d = "(registration_defaults k caller)
                \<lparr>ticketId := Some (generateTicketId ms rnd), formData := form, paymentStatus := NotApplicable\<rparr>"
    let ?reg = "?d\<lparr>rid := fresh_id (map rid (registrations s))\<rparr>"
    have c: "Registration_create (registrations s) ?d = Some (?reg, registrations s @ [?reg])"
      using g by (intro Registration_create_succeeds) (auto simp: unused_ticket_iff)
    show "\<exists>reg. fst (register s caller k form now ms rnd) = Inr reg
            \<and> ticketId reg = Some (generateTicketId ms rnd) \<and> eventId reg = k \<and> participantId reg = caller
            \<and> registrations (snd (register s caller k form now ms rnd)) = registrations s @ [reg]"
      using g lim by (auto simp: register_def ev k c Let_def accepting_def)
  }
  fix lim
  assume "registrationLimit event = Some lim \<and> lim \<noteq> 0
            \<and> countDocuments (registrations s) k \<ge> lim
            \<and> accepting s caller event Normal now"
  then show "register s caller k form now ms rnd = (Inl RegistrationLimitReached, s)"
    by (auto simp: register_def ev k Let_def accepting_def)
qed

theorem register_limit_zero_is_unlimited_witness:
  "countDocuments (registrations db1) 1 = 1
   \<and> (\<exists>reg. fst (register (db1\<lparr>events := [fest\<lparr>registrationLimit := Some 0\<rparr>]\<rparr>) 11 1 [] 50
                   ''50'' ''CD'') = Inr reg)
   \<and> register (db1\<lparr>events := [fest\<lparr>registrationLimit := Some 1\<rparr>]\<rparr>) 11 1 [] 50 ''50'' ''CD''
       = (Inl RegistrationLimitReached, db1\<lparr>events := [fest\<lparr>registrationLimit := Some 1\<rparr>]\<rparr>)"
proof -
  let ?z = "fest\<lparr>registrationLimit := Some 0\<rparr>"
  let ?o = "fest\<lparr>registrationLimit := Some 1\<rparr>"
  let ?sz = "db1\<lparr>events := [?z]\<rparr>"
  let ?so = "db1\<lparr>events := [?o]\<rparr>"
  have cnt: "countDocuments (registrations db1) 1 = 1"
    by (simp add: countDocuments_def db1_def alice_reg_def)
  have fz: "findById (events ?sz) 1 = Some ?z" and fo: "findById (events ?so) 1 = Some ?o"
    by (simp_all add: findById_def fest_def)
  have az: "accepting ?sz 11 ?z Normal 50" and ao: "accepting ?so 11 ?o Normal 50"
    by (simp_all add: accepting_def fest_def getEffectiveStatus_def eligibility_check_def)
  have nz: "findRegistration (registrations ?sz) 1 11 = None"
    by (simp add: findRegistration_def db1_def alice_reg_def)
  have tz: "unused_ticket ?sz (generateTicketId ''50'' ''CD'')"
    by (simp add: unused_ticket_def generateTicketId_def db1_def alice_reg_def)
  have uz: "findUser (users ?sz) 11 \<noteq> None"
    by (simp add: findUser_def db1_def db0_def alice_def bob_def)
  from register_limit_zero_is_unlimited [OF fz, of 11 "[]" 50 "''50''" "''CD''"] az nz tz uz
  have "\<exists>reg. fst (register ?sz 11 1 [] 50 ''50'' ''CD'') = Inr reg"
    by auto
  moreover from register_limit_zero_is_unlimited [OF fo, of 11 "[]" 50 "''50''" "''CD''"] ao cnt
  have "register ?so 11 1 [] 50 ''50'' ''CD'' = (Inl RegistrationLimitReached, ?so)"
    by simp
  ultimately show ?thesis using cnt by simp
qed

section \<open>Merchandise orders\<close>

lemma no_past_orders:
  "findRegistration rs k p = None
    \<Longrightarrow> filter (\<lambda>r. eventId r = k \<and> participantId r = p) rs = []"
  by (auto simp: findRegistration_def find_None_iff filter_empty_conv)

lemma stock_of_event_save:
  assumes "findById (events s) k = Some event"
    and "variant_by_id (merchandiseVariants event) v = Some variant"
  shows "stock_of (s\<lparr>events := event_save
            (event\<lparr>merchandiseVariants := dec_stock v q (merchandiseVariants event)\<rparr>)
            (events s), registrations := rs\<rparr>) k v = Some (stock variant - q)"
  using findById_event_save [OF assms(1),
      of "event\<lparr>merchandiseVariants := dec_stock v q (merchandiseVariants event)\<rparr>"]
    findById_eid [OF assms(1)] variant_by_id_dec_stock [OF assms(2), of q]
  by (simp add: stock_of_def)

lemma placeOrder_default_quantity:
  "placeOrder s caller k vreq None now ms rnd = placeOrder s caller k vreq (Some 1) now ms rnd"
  by (simp add: placeOrder_def Let_def split: option.split)

lemma placeOrder_insufficient:
  assumes "findById (events s) k = Some event" "accepting s caller event Merchandise now"
    and "variant_by_id (merchandiseVariants event) v = Some variant"
    and "qty \<le> purchaseLimitPerUser event"
    and "findRegistration (registrations s) k caller = None"
    and "\<not> requiresPaymentApproval event" "stock variant < qty"
  shows "placeOrder s caller k (Some v) (Some qty) now ms rnd = (Inl InsufficientStock, s)"
  using assms findById_eid [OF assms(1)] no_past_orders [OF assms(5)]
  by (auto simp: placeOrder_def Let_def accepting_def)

lemma placeOrder_immediate:
  assumes ev: "findById (events s) k = Some event"
    and acc: "accepting s caller event Merchandise now"
    and var: "variant_by_id (merchandiseVariants event) v = Some variant"
    and lim: "qty \<le> purchaseLimitPerUser event"
    and nodup: "findRegistration (registrations s) k caller = None"
    and imm: "\<not> requiresPaymentApproval event" and st: "qty \<le> stock variant"
    and tk: "unused_ticket s (generateTicketId ms rnd)" and us: "findUser (users s) caller \<noteq> None"
  shows "\<exists>reg. placeOrder s caller k (Some v) (Some qty) now ms rnd
           = (Inr reg,
              s\<lparr>events := event_save
                   (event\<lparr>merchandiseVariants := dec_stock v qty (merchandiseVariants event)\<rparr>)
                   (events s),
                registrations := registrations s @ [reg]\<rparr>)
         \<and> ticketId reg = Some (generateTicketId ms rnd) \<and> paymentStatus reg = Approved \<and> quantity reg = qty
         \<and> variantId reg = Some v \<and> eventId reg = k \<and> participantId reg = caller"
proof -
  have k: "eid event = k" using ev by (rule findById_eid)
  let ?d = "(registration_defaults k caller)
              \<lparr>ticketId := Some (generateTicketId ms rnd), variantId := Some v, quantity := qty,
                paymentStatus := Approved\<rparr>"
  let ?reg = "?d\<lparr>rid := fresh_id (map rid (registrations s))\<rparr>"
  have c: "Registration_create (registrations s) ?d = Some (?reg, registrations s @ [?reg])"
    using nodup tk by (intro Registration_create_succeeds) (auto simp: unused_ticket_iff)
  show ?thesis
    using acc var lim imm st us no_past_orders [OF nodup] nodup
    by (auto simp: placeOrder_def ev k c Let_def accepting_def)
qed

lemma placeOrder_pending:
  assumes ev: "findById (events s) k = Some event"
    and acc: "accepting s caller event Merchandise now"
    and var: "variant_by_id (merchandiseVariants event) v = Some variant"
    and lim: "qty \<le> purchaseLimitPerUser event"
    and nodup: "findRegistration (registrations s) k caller = None"
    and app: "requiresPaymentApproval event"
  shows "\<exists>reg. placeOrder s caller k (Some v) (Some qty) now ms rnd
           = (Inr reg, s\<lparr>registrations := registrations s @ [reg]\<rparr>)
         \<and> ticketId reg = None \<and> paymentStatus reg = Pending \<and> quantity reg = qty
         \<and> variantId reg = Some v \<and> eventId reg = k \<and> participantId reg = caller"
proof -
  have k: "eid event = k" using ev by (rule findById_eid)
  let ?d = "(registration_defaults k caller)
              \<lparr>variantId := Some v, quantity := qty, paymentStatus := Pending\<rparr>"
  let ?reg = "?d\<lparr>rid := fresh_id (map rid (registrations s))\<rparr>"
  have c: "Registration_create (registrations s) ?d = Some (?reg, registrations s @ [?reg])"
    using nodup by (intro Registration_create_succeeds) auto
  show ?thesis
    using acc var lim app no_past_orders [OF nodup] nodup
    by (auto simp: placeOrder_def ev k c Let_def accepting_def)
qed

lemma placeOrder_immediate_refused:
  assumes ev: "findById (events s) k = Some event"
    and acc: "accepting s caller event Merchandise now"
    and var: "variant_by_id (merchandiseVariants event) v = Some variant"
    and lim: "qty \<le> purchaseLimitPerUser event"
    and nodup: "findRegistration (registrations s) k caller = None"
    and imm: "\<not> requiresPaymentApproval event" and st: "qty \<le> stock variant"
    and no: "\<not> unused_ticket s (generateTicketId ms rnd) \<or> findUser (users s) caller = None"
  shows "fst (placeOrder s caller k (Some v) (Some qty) now ms rnd) = Inl ServerError"
proof -
  have k: "eid event = k" using ev by (rule findById_eid)
  let ?d = "(registration_defaults k caller)
              \<lparr>ticketId := Some (generateTicketId ms rnd), variantId := Some v, quantity := qty,
                paymentStatus := Approved\<rparr>"
  show ?thesis
  proof (cases "unused_ticket s (generateTicketId ms rnd)")
    case False
    have c: "Registration_create (registrations s) ?d = None"
      using False by (intro Registration_create_used_ticket) simp_all
    show ?thesis
      using acc var lim imm st no_past_orders [OF nodup] nodup
      by (simp add: placeOrder_def ev k c Let_def accepting_def)
  next
    case True
    with no have u: "findUser (users s) caller = None" by simp
    show ?thesis
      using acc var lim imm st u no_past_orders [OF nodup] nodup
      by (simp add: placeOrder_def ev k Let_def accepting_def split: option.split prod.split)
  qed
qed

text \<open>
  C3. A merchandise order that passes the guards which the handler applies before the
  approval test (the event takes orders, the variant exists, the quantity is within the
  purchase limit, the participant has no registration for the event). Without payment
  approval: if the variant's stock is below the quantity, the answer is "Insufficient
  stock." and nothing changes; if the stock covers the quantity, the order succeeds
  exactly when no registration holds the generated ticket identifier and the
  participant's account exists, and a successful order leaves the stored stock of the
  variant lower by exactly the quantity and a new Approved registration that carries the
  generated identifier, a non-empty string that no registration held before. With payment
  approval: a Pending registration without a ticket is created and the events, hence the
  stock, stay as they are.
\<close>

theorem placeOrder_stock:
  assumes ev: "findById (events s) k = Some event"
    and acc: "accepting s caller event Merchandise now"
    and var: "variant_by_id (merchandiseVariants event) v = Some variant"
    and lim: "qty \<le> purchaseLimitPerUser event"
    and nodup: "findRegistration (registrations s) k caller = None"
  shows "(\<not> requiresPaymentApproval event \<and> stock variant < qty \<longrightarrow>
            placeOrder s caller k (Some v) (Some qty) now ms rnd = (Inl InsufficientStock, s))
       \<and> (\<not> requiresPaymentApproval event \<and> stock variant \<ge> qty \<longrightarrow>
            ((\<exists>reg. fst (placeOrder s caller k (Some v) (Some qty) now ms rnd) = Inr reg)
               \<longleftrightarrow> unused_ticket s (generateTicketId ms rnd)
                     \<and> findUser (users s) caller \<noteq> None)
            \<and> (\<forall>reg. fst (placeOrder s caller k (Some v) (Some qty) now ms rnd) = Inr reg \<longrightarrow>
                  ticketId reg = Some (generateTicketId ms rnd)
                  \<and> generateTicketId ms rnd \<noteq> []
                  \<and> unused_ticket s (generateTicketId ms rnd)
                  \<and> paymentStatus reg = Approved
                  \<and> quantity reg = qty \<and> variantId reg = Some v
                  \<and> eventId reg = k \<and> participantId reg = caller
                  \<and> registrations (snd (placeOrder s caller k (Some v) (Some qty) now ms rnd))
                      = registrations s @ [reg]
                  \<and> stock_of (snd (placeOrder s caller k (Some v) (Some qty) now ms rnd)) k v
                      = Some (stock variant - qty)))
       \<and> (requiresPaymentApproval event \<longrightarrow>
            (\<exists>reg. placeOrder s caller k (Some v) (Some qty) now ms rnd
                      = (Inr reg, s\<lparr>registrations := registrations s @ [reg]\<rparr>)
               \<and> ticketId reg = None \<and> paymentStatus reg = Pending
               \<and> quantity reg = qty \<and> variantId reg = Some v
               \<and> eventId reg = k \<and> participantId reg = caller)
            \<and> stock_of (snd (placeOrder s caller k (Some v) (Some qty) now ms rnd)) k v
                = Some (stock variant))
       \<and> placeOrder s caller k (Some v) None now ms rnd
           = placeOrder s caller k (Some v) (Some 1) now ms rnd"
proof -
  let ?r = "placeOrder s caller k (Some v) (Some qty) now ms rnd"
  let ?t = "generateTicketId ms rnd"
  have 1: "\<not> requiresPaymentApproval event \<and> stock variant < qty \<longrightarrow>
            ?r = (Inl InsufficientStock, s)"
    using placeOrder_insufficient [OF ev acc var lim nodup] by simp
  have ok: "\<exists>reg. ?r = (Inr reg,
              s\<lparr>events := event_save
                   (event\<lparr>merchandiseVariants := dec_stock v qty (merchandiseVariants event)\<rparr>)
                   (events s),
                registrations := registrations s @ [reg]\<rparr>)
         \<and> ticketId reg = Some ?t \<and> paymentStatus reg = Approved \<and> quantity reg = qty
         \<and> variantId reg = Some v \<and> eventId reg = k \<and> participantId reg = caller"
    if "\<not> requiresPaymentApproval event" "stock variant \<ge> qty"
      "unused_ticket s ?t" "findUser (users s) caller \<noteq> None"
    using placeOrder_immediate [OF ev acc var lim nodup that] .
  have no: "fst ?r = Inl ServerError"
    if "\<not> requiresPaymentApproval event" "stock variant \<ge> qty"
      "\<not> unused_ticket s ?t \<or> findUser (users s) caller = None"
    using placeOrder_immediate_refused [OF ev acc var lim nodup that] .
  have 2: "((\<exists>reg. fst ?r = Inr reg) \<longleftrightarrow> unused_ticket s ?t \<and> findUser (users s) caller \<noteq> None)
            \<and> (\<forall>reg. fst ?r = Inr reg \<longrightarrow>
                  ticketId reg = Some ?t \<and> ?t \<noteq> [] \<and> unused_ticket s ?t
                  \<and> paymentStatus reg = Approved
                  \<and> quantity reg = qty \<and> variantId reg = Some v
                  \<and> eventId reg = k \<and> participantId reg = caller
                  \<and> registrations (snd ?r) = registrations s @ [reg]
                  \<and> stock_of (snd ?r) k v = Some (stock variant - qty))"
    if i: "\<not> requiresPaymentApproval event" and st: "stock variant \<ge> qty"
  proof (cases "unused_ticket s ?t \<and> findUser (users s) caller \<noteq> None")
    case True
    from ok [OF i st] True obtain reg where r: "?r = (Inr reg,
              s\<lparr>events := event_save
                   (event\<lparr>merchandiseVariants := dec_stock v qty (merchandiseVariants event)\<rparr>)
                   (events s),
                registrations := registrations s @ [reg]\<rparr>)"
      and p: "ticketId reg = Some ?t \<and> paymentStatus reg = Approved \<and> quantity reg = qty
         \<and> variantId reg = Some v \<and> eventId reg = k \<and> participantId reg = caller"
      by blast
    have "stock_of (snd ?r) k v = Some (stock variant - qty)"
      using r stock_of_event_save [OF ev var] by simp
    with r p True show ?thesis by (simp add: generateTicketId_nonempty)
  next
    case False
    with no [OF i st] show ?thesis by auto
  qed
  have 3: "requiresPaymentApproval event \<longrightarrow>
            (\<exists>reg. ?r = (Inr reg, s\<lparr>registrations := registrations s @ [reg]\<rparr>)
               \<and> ticketId reg = None \<and> paymentStatus reg = Pending
               \<and> quantity reg = qty \<and> variantId reg = Some v
               \<and> eventId reg = k \<and> participantId reg = caller)
            \<and> stock_of (snd ?r) k v = Some (stock variant)"
  proof
    assume a: "requiresPaymentApproval event"
    from placeOrder_pending [OF ev acc var lim nodup a, where ms = ms and rnd = rnd]
    obtain reg where r: "?r = (Inr reg, s\<lparr>registrations := registrations s @ [reg]\<rparr>)"
      and p: "ticketId reg = None \<and> paymentStatus reg = Pending \<and> quantity reg = qty
         \<and> variantId reg = Some v \<and> eventId reg = k \<and> participantId reg = caller"
      by blast
    have "stock_of (snd ?r) k v = Some (stock variant)"
      using r ev var by (simp add: stock_of_def)
    with r p show "(\<exists>reg. ?r = (Inr reg, s\<lparr>registrations := registrations s @ [reg]\<rparr>)
               \<and> ticketId reg = None \<and> paymentStatus reg = Pending
               \<and> quantity reg = qty \<and> variantId reg = Some v
               \<and> eventId reg = k \<and> participantId reg = caller)
            \<and> stock_of (snd ?r) k v = Some (stock variant)"
      by blast
  qed
  from 1 2 3 placeOrder_default_quantity [where s = s and caller = caller and k = k and vreq = "Some v"
      and now = now and ms = ms and rnd = rnd]
  show ?thesis by blast
qed

theorem placeOrder_stock_witness:
  "placeOrder db0 10 2 (Some 2) (Some 2) 50 ''50'' ''AB'' = (Inl InsufficientStock, db0)
   \<and> (\<exists>reg. fst (placeOrder db0 10 2 (Some 1) (Some 2) 50 ''50'' ''AB'') = Inr reg
          \<and> ticketId reg = Some ''TKT-50-AB'' \<and> quantity reg = 2)
   \<and> stock_of db0 2 1 = Some 5
   \<and> stock_of (snd (placeOrder db0 10 2 (Some 1) (Some 2) 50 ''50'' ''AB'')) 2 1 = Some 3
   \<and> fst (placeOrder db3 11 2 (Some 1) (Some 2) 50 ''50'' ''AB'') = Inl ServerError
   \<and> (\<exists>reg. fst (placeOrder (db0\<lparr>events := [tshirts\<lparr>requiresPaymentApproval := True\<rparr>]\<rparr>)
                   10 2 (Some 1) (Some 2) 50 ''50'' ''AB'') = Inr reg
          \<and> ticketId reg = None \<and> paymentStatus reg = Pending)
   \<and> stock_of (snd (placeOrder (db0\<lparr>events := [tshirts\<lparr>requiresPaymentApproval := True\<rparr>]\<rparr>)
                   10 2 (Some 1) (Some 2) 50 ''50'' ''AB'')) 2 1 = Some 5"
proof -
  let ?p = "tshirts\<lparr>requiresPaymentApproval := True\<rparr>"
  let ?sp = "db0\<lparr>events := [?p]\<rparr>"
  let ?M = "\<lparr>vid = 1, vsize = ''M'', color = ''red'', stock = 5, price = 300\<rparr>"
  let ?L = "\<lparr>vid = 2, vsize = ''L'', color = ''red'', stock = 1, price = 300\<rparr>"
  let ?ok = "placeOrder db0 10 2 (Some 1) (Some 2) 50 ''50'' ''AB''"
  let ?pend = "placeOrder ?sp 10 2 (Some 1) (Some 2) 50 ''50'' ''AB''"
  have ev: "findById (events db0) 2 = Some tshirts" and evp: "findById (events ?sp) 2 = Some ?p"
    and ev3: "findById (events db3) 2 = Some tshirts"
    by (simp_all add: findById_def db0_def db3_def fest_def tshirts_def)
  have acc: "accepting db0 10 tshirts Merchandise 50" and accp: "accepting ?sp 10 ?p Merchandise 50"
    and acc3: "accepting db3 11 tshirts Merchandise 50"
    by (simp_all add: accepting_def tshirts_def getEffectiveStatus_def eligibility_check_def)
  have vM: "variant_by_id (merchandiseVariants tshirts) 1 = Some ?M"
    and vL: "variant_by_id (merchandiseVariants tshirts) 2 = Some ?L"
    and vMp: "variant_by_id (merchandiseVariants ?p) 1 = Some ?M"
    by (simp_all add: variant_by_id_def tshirts_def)
  have lim: "2 \<le> purchaseLimitPerUser tshirts" and limp: "2 \<le> purchaseLimitPerUser ?p"
    by (simp_all add: tshirts_def)
  have nodup: "findRegistration (registrations db0) 2 10 = None"
    and nodupp: "findRegistration (registrations ?sp) 2 10 = None"
    and nodup3: "findRegistration (registrations db3) 2 11 = None"
    by (simp_all add: findRegistration_def db0_def db3_def alice_order_def)
  have tk: "unused_ticket db0 (generateTicketId ''50'' ''AB'')"
    by (simp add: unused_ticket_def generateTicketId_def db0_def)
  have tk3: "\<not> unused_ticket db3 (generateTicketId ''50'' ''AB'')"
    by (simp add: unused_ticket_def generateTicketId_def db3_def alice_order_def)
  have us: "findUser (users db0) 10 \<noteq> None" by (simp add: findUser_def db0_def alice_def)
  have imm: "\<not> requiresPaymentApproval tshirts" and stM: "2 \<le> stock ?M" and stL: "stock ?L < 2"
    by (simp_all add: tshirts_def)
  have s0: "stock_of db0 2 1 = Some 5"
    by (simp add: stock_of_def findById_def db0_def fest_def tshirts_def variant_by_id_def)
  have g: "generateTicketId ''50'' ''AB'' = ''TKT-50-AB''" by (simp add: generateTicketId_def)
  have 1: "placeOrder db0 10 2 (Some 2) (Some 2) 50 ''50'' ''AB'' = (Inl InsufficientStock, db0)"
    using placeOrder_stock [OF ev acc vL lim nodup, where ms = "''50''" and rnd = "''AB''"] imm stL by blast
  note A = placeOrder_stock [OF ev acc vM lim nodup, where ms = "''50''" and rnd = "''AB''"]
  from A imm stM tk us obtain reg where r: "fst ?ok = Inr reg" by blast
  from A imm stM r have p: "ticketId reg = Some (generateTicketId ''50'' ''AB'')"
      "quantity reg = 2" "stock_of (snd ?ok) 2 1 = Some (stock ?M - 2)"
    by blast+
  from r p g have 2: "(\<exists>reg. fst ?ok = Inr reg \<and> ticketId reg = Some ''TKT-50-AB'' \<and> quantity reg = 2)
      \<and> stock_of (snd ?ok) 2 1 = Some 3"
    by auto
  from placeOrder_stock [OF ev3 acc3 vM lim nodup3, where ms = "''50''" and rnd = "''AB''"] imm stM tk3
  have "\<not> (\<exists>reg. fst (placeOrder db3 11 2 (Some 1) (Some 2) 50 ''50'' ''AB'') = Inr reg)"
    by blast
  moreover have "fst (placeOrder db3 11 2 (Some 1) (Some 2) 50 ''50'' ''AB'') = Inl ServerError"
    using placeOrder_immediate_refused [OF ev3 acc3 vM lim nodup3 imm stM] tk3 by blast
  ultimately have 3: "fst (placeOrder db3 11 2 (Some 1) (Some 2) 50 ''50'' ''AB'') = Inl ServerError"
    by simp
  from placeOrder_stock [OF evp accp vMp limp nodupp, where ms = "''50''" and rnd = "''AB''"]
  obtain regp where rp: "?pend = (Inr regp, ?sp\<lparr>registrations := registrations ?sp @ [regp]\<rparr>)"
    "ticketId regp = None" "paymentStatus regp = Pending"
    and stp: "stock_of (snd ?pend) 2 1 = Some (stock ?M)"
    by auto
  from rp have "fst ?pend = Inr regp \<and> ticketId regp = None \<and> paymentStatus regp = Pending"
    by simp
  then have 4: "\<exists>reg. fst ?pend = Inr reg \<and> ticketId reg = None \<and> paymentStatus reg = Pending"
    by blast
  from stp have 5: "stock_of (snd ?pend) 2 1 = Some 5" by simp
  from 1 2 s0 3 4 5 show ?thesis by simp
qed

text \<open>
  The purchase limit is tested before the stock: under the schema's default limit of 1,
  an immediate order of two items is answered with the purchase-limit message, whether
  the variant's stock is below the quantity (variant 2, stock 1) or covers it (variant 1,
  stock 5). And an order within the limit on a stock that covers it fails when the
  generated ticket identifier is one that a registration already holds.
\<close>

theorem placeOrder_limit_before_stock_counterexample:
  "stock_of db4 2 2 = Some 1
   \<and> placeOrder db4 10 2 (Some 2) (Some 2) 50 ''50'' ''AB'' = (Inl (PurchaseLimit 1), db4)
   \<and> PurchaseLimit 1 \<noteq> InsufficientStock
   \<and> stock_of db4 2 1 = Some 5
   \<and> placeOrder db4 10 2 (Some 1) (Some 2) 50 ''50'' ''AB'' = (Inl (PurchaseLimit 1), db4)
   \<and> stock_of db3 2 1 = Some 5
   \<and> fst (placeOrder db3 11 2 (Some 1) (Some 2) 50 ''50'' ''AB'') = Inl ServerError"
  by (simp add: placeOrder_def stock_of_def db4_def db3_def db0_def findById_def findUser_def
      findRegistration_def fest_def tshirts_def alice_def bob_def alice_order_def
      registration_defaults_def getEffectiveStatus_def eligibility_check_def
      variant_by_id_def event_save_def Registration_create_def index_event_participant_def
      index_ticketId_def fresh_id_def generateTicketId_def Let_def)

section \<open>Quantity of a merchandise order\<close>

text \<open>
  C9. The order handler does not test the quantity against a lower bound. An order with
  quantity zero or negative that passes the guards (such a quantity is within every
  nonnegative purchase limit, and no nonnegative stock is below it) is accepted: a
  registration with that quantity is created, and without payment approval the stock of
  the variant grows by the magnitude of the quantity.
\<close>

theorem placeOrder_accepts_nonpositive_quantity:
  assumes ev: "findById (events s) k = Some event"
    and acc: "accepting s caller event Merchandise now"
    and var: "variant_by_id (merchandiseVariants event) v = Some variant"
    and nodup: "findRegistration (registrations s) k caller = None"
    and tk: "unused_ticket s (generateTicketId ms rnd)" and us: "findUser (users s) caller \<noteq> None"
    and q: "qty \<le> 0" and st: "0 \<le> stock variant" and pl: "0 \<le> purchaseLimitPerUser event"
  shows "\<exists>reg. fst (placeOrder s caller k (Some v) (Some qty) now ms rnd) = Inr reg
           \<and> quantity reg = qty
           \<and> registrations (snd (placeOrder s caller k (Some v) (Some qty) now ms rnd))
               = registrations s @ [reg]
           \<and> stock_of (snd (placeOrder s caller k (Some v) (Some qty) now ms rnd)) k v
               = Some (if requiresPaymentApproval event then stock variant
                       else stock variant - qty)"
proof (cases "requiresPaymentApproval event")
  case True
  from q pl have lim: "qty \<le> purchaseLimitPerUser event" by simp
  from placeOrder_pending [OF ev acc var lim nodup True, of ms rnd]
  show ?thesis using True ev var by (auto simp: stock_of_def)
next
  case False
  from q pl have lim: "qty \<le> purchaseLimitPerUser event" by simp
  from q st have st': "qty \<le> stock variant" by simp
  from placeOrder_immediate [OF ev acc var lim nodup False st' tk us]
  show ?thesis using False stock_of_event_save [OF ev var] by auto
qed

theorem placeOrder_accepts_nonpositive_quantity_witness:
  "(\<exists>reg. fst (placeOrder db0 10 2 (Some 1) (Some (- 2)) 50 ''50'' ''AB'') = Inr reg
       \<and> quantity reg = - 2)
   \<and> stock_of db0 2 1 = Some 5
   \<and> stock_of (snd (placeOrder db0 10 2 (Some 1) (Some (- 2)) 50 ''50'' ''AB'')) 2 1 = Some 7
   \<and> (\<exists>reg. fst (placeOrder db0 10 2 (Some 1) (Some 0) 50 ''50'' ''AB'') = Inr reg
       \<and> quantity reg = 0)"
proof -
  let ?M = "\<lparr>vid = 1, vsize = ''M'', color = ''red'', stock = 5, price = 300\<rparr>"
  have ev: "findById (events db0) 2 = Some tshirts"
    by (simp add: findById_def db0_def fest_def tshirts_def)
  have acc: "accepting db0 10 tshirts Merchandise 50"
    by (simp add: accepting_def tshirts_def getEffectiveStatus_def eligibility_check_def)
  have vM: "variant_by_id (merchandiseVariants tshirts) 1 = Some ?M"
    by (simp add: variant_by_id_def tshirts_def)
  have nodup: "findRegistration (registrations db0) 2 10 = None"
    by (simp add: findRegistration_def db0_def)
  have tk: "unused_ticket db0 (generateTicketId ''50'' ''AB'')"
    by (simp add: unused_ticket_def generateTicketId_def db0_def)
  have us: "findUser (users db0) 10 \<noteq> None" by (simp add: findUser_def db0_def alice_def)
  have pl: "0 \<le> purchaseLimitPerUser tshirts" and imm: "\<not> requiresPaymentApproval tshirts"
    by (simp_all add: tshirts_def)
  have s0: "stock_of db0 2 1 = Some 5"
    by (simp add: stock_of_def findById_def db0_def fest_def tshirts_def variant_by_id_def)
  have m: "(- 2 :: int) \<le> 0" and z: "(0 :: int) \<le> 0" and st: "0 \<le> stock ?M" by simp_all
  have 1: "\<exists>reg. fst (placeOrder db0 10 2 (Some 1) (Some (- 2)) 50 ''50'' ''AB'') = Inr reg
           \<and> quantity reg = - 2
           \<and> registrations (snd (placeOrder db0 10 2 (Some 1) (Some (- 2)) 50 ''50'' ''AB''))
               = registrations db0 @ [reg]
           \<and> stock_of (snd (placeOrder db0 10 2 (Some 1) (Some (- 2)) 50 ''50'' ''AB'')) 2 1
               = Some 7"
    using placeOrder_accepts_nonpositive_quantity [OF ev acc vM nodup tk us m st pl] imm
    by simp
  have 2: "\<exists>reg. fst (placeOrder db0 10 2 (Some 1) (Some 0) 50 ''50'' ''AB'') = Inr reg
           \<and> quantity reg = 0
           \<and> registrations (snd (placeOrder db0 10 2 (Some 1) (Some 0) 50 ''50'' ''AB''))
               = registrations db0 @ [reg]
           \<and> stock_of (snd (placeOrder db0 10 2 (Some 1) (Some 0) 50 ''50'' ''AB'')) 2 1
               = Some 5"
    using placeOrder_accepts_nonpositive_quantity [OF ev acc vM nodup tk us z st pl] imm
    by simp
  from 1 have "(\<exists>reg. fst (placeOrder db0 10 2 (Some 1) (Some (- 2)) 50 ''50'' ''AB'') = Inr reg
       \<and> quantity reg = - 2)
      \<and> stock_of (snd (placeOrder db0 10 2 (Some 1) (Some (- 2)) 50 ''50'' ''AB'')) 2 1 = Some 7"
    by blast
  moreover from 2 have "\<exists>reg. fst (placeOrder db0 10 2 (Some 1) (Some 0) 50 ''50'' ''AB'') = Inr reg
       \<and> quantity reg = 0"
    by blast
  ultimately show ?thesis using s0 by simp
qed

section \<open>Order approval\<close>

lemma approveOrder_not_pending:
  assumes "owns s caller k event" "findOrder (registrations s) regId k = Some reg"
    and "paymentStatus reg \<noteq> Pending"
  shows "approveOrder s caller k regId ms rnd = (Inl OnlyPendingApproved, s)"
  using owns_unfold [OF assms(1)] assms(2,3)
  by (auto simp: approveOrder_def)

lemma rejectOrder_not_pending:
  assumes "owns s caller k event" "findOrder (registrations s) regId k = Some reg"
    and "paymentStatus reg \<noteq> Pending"
  shows "rejectOrder s caller k regId = (Inl OnlyPendingRejected, s)"
  using owns_unfold [OF assms(1)] assms(2,3)
  by (auto simp: rejectOrder_def)

lemma approveOrder_no_stock:
  assumes "owns s caller k event" "findOrder (registrations s) regId k = Some reg"
    and "paymentStatus reg = Pending" "\<not> approvable event reg"
  shows "approveOrder s caller k regId ms rnd = (Inl InsufficientStockToApprove, s)"
  using owns_unfold [OF assms(1)] assms(2-)
  by (auto simp: approveOrder_def approvable_def split: option.splits)

lemma index_ticketId_taken:
  "index_ticketId (registrations s) (reg\<lparr>paymentStatus := Approved, ticketId := Some t\<rparr>)
     \<longleftrightarrow> \<not> ticket_taken s (rid reg) t"
  by (auto simp: index_ticketId_def ticket_taken_def)

lemma ticket_taken_registration_save:
  "ticket_taken (s\<lparr>events := evs, registrations := registration_save reg' (registrations s)\<rparr>)
     (rid reg') t = ticket_taken s (rid reg') t"
  by (auto simp: ticket_taken_def registration_save_def)

lemma approveOrder_approvable:
  assumes o: "owns s caller k event" and f: "findOrder (registrations s) regId k = Some reg"
    and a: "approvable event reg"
  shows "\<exists>v variant. variantId reg = Some v
           \<and> variant_by_id (merchandiseVariants event) v = Some variant
           \<and> approveOrder s caller k regId ms rnd
               = (if ticket_taken s regId (generateTicketId ms rnd)
                  then (Inl ServerError,
                        s\<lparr>events := event_save
                             (event\<lparr>merchandiseVariants :=
                                       dec_stock v (quantity reg) (merchandiseVariants event)\<rparr>)
                             (events s)\<rparr>)
                  else (if findUser (users s) (participantId reg) = None
                        then Inl ServerError else Inr (generateTicketId ms rnd),
                        s\<lparr>events := event_save
                             (event\<lparr>merchandiseVariants :=
                                       dec_stock v (quantity reg) (merchandiseVariants event)\<rparr>)
                             (events s),
                          registrations := registration_save
                             (reg\<lparr>paymentStatus := Approved,
                                   ticketId := Some (generateTicketId ms rnd)\<rparr>)
                             (registrations s)\<rparr>))"
proof -
  from a obtain v variant where v: "variantId reg = Some v"
      "variant_by_id (merchandiseVariants event) v = Some variant"
      "quantity reg \<le> stock variant" "paymentStatus reg = Pending"
    by (auto simp: approvable_def split: option.splits)
  have r: "rid reg = regId" using find_holds [OF f [unfolded findOrder_def]] by simp
  have i: "index_ticketId (registrations s)
             (reg\<lparr>paymentStatus := Approved, ticketId := Some (generateTicketId ms rnd)\<rparr>)
           \<longleftrightarrow> \<not> ticket_taken s regId (generateTicketId ms rnd)"
    using index_ticketId_taken [where s = s and reg = reg] r by simp
  show ?thesis
    using owns_unfold [OF o] f v i
    by (auto simp: approveOrder_def Let_def)
qed

text \<open>
  C4. An approval, by the owner, of an order of the event. It succeeds exactly when the
  order is Pending, its variant exists with stock for the quantity, no other registration
  holds the generated ticket identifier and the account of the ordering participant
  exists. A successful approval answers with the generated identifier, a non-empty string
  that no other registration holds, stores the order as Approved with that identifier, and
  leaves the stored stock of the variant lower by the quantity. A Pending order whose
  variant is missing or short of stock is refused with "Insufficient stock to approve.";
  an order that is Approved or Rejected is refused by both approve and reject with their
  "Only Pending orders ..." answers (status 400); in each of these refusals the database
  is unchanged, so the order and the stock are as before.
\<close>

theorem approveOrder_transitions:
  assumes o: "owns s caller k event" and f: "findOrder (registrations s) regId k = Some reg"
  shows "((\<exists>t. fst (approveOrder s caller k regId ms rnd) = Inr t)
            \<longleftrightarrow> approvable event reg
                \<and> \<not> ticket_taken s regId (generateTicketId ms rnd)
                \<and> findUser (users s) (participantId reg) \<noteq> None)
       \<and> (\<forall>t. fst (approveOrder s caller k regId ms rnd) = Inr t \<longrightarrow>
            t = generateTicketId ms rnd \<and> t \<noteq> []
            \<and> \<not> ticket_taken (snd (approveOrder s caller k regId ms rnd)) regId t
            \<and> findOrder (registrations (snd (approveOrder s caller k regId ms rnd))) regId k
                = Some (reg\<lparr>paymentStatus := Approved, ticketId := Some t\<rparr>)
            \<and> (\<exists>v variant. variantId reg = Some v
                  \<and> variant_by_id (merchandiseVariants event) v = Some variant
                  \<and> stock_of (snd (approveOrder s caller k regId ms rnd)) k v
                      = Some (stock variant - quantity reg)))
       \<and> (paymentStatus reg = Pending \<and> \<not> approvable event reg \<longrightarrow>
            approveOrder s caller k regId ms rnd = (Inl InsufficientStockToApprove, s))
       \<and> (paymentStatus reg \<in> {Approved, Rejected} \<longrightarrow>
            approveOrder s caller k regId ms rnd = (Inl OnlyPendingApproved, s)
            \<and> rejectOrder s caller k regId = (Inl OnlyPendingRejected, s)
            \<and> http_status OnlyPendingApproved = 400 \<and> http_status OnlyPendingRejected = 400)"
proof -
  let ?r = "approveOrder s caller k regId ms rnd"
  let ?t = "generateTicketId ms rnd"
  let ?reg = "reg\<lparr>paymentStatus := Approved, ticketId := Some ?t\<rparr>"
  from owns_unfold [OF o] have ev: "findById (events s) k = Some event" by blast
  have rid: "rid reg = regId \<and> eventId reg = k"
    using find_holds [OF f [unfolded findOrder_def]] by simp
  have n: "\<not> (\<exists>t. fst ?r = Inr t)" if "\<not> approvable event reg"
  proof (cases "paymentStatus reg = Pending")
    case True
    from approveOrder_no_stock [OF o f True that, where ms = ms and rnd = rnd]
    show ?thesis by simp
  next
    case False
    from approveOrder_not_pending [OF o f False, where ms = ms and rnd = rnd]
    show ?thesis by simp
  qed
  have y: "((\<exists>t. fst ?r = Inr t)
              \<longleftrightarrow> \<not> ticket_taken s regId ?t \<and> findUser (users s) (participantId reg) \<noteq> None)
         \<and> (\<forall>t. fst ?r = Inr t \<longrightarrow>
            t = ?t \<and> t \<noteq> [] \<and> \<not> ticket_taken (snd ?r) regId t
            \<and> findOrder (registrations (snd ?r)) regId k
                = Some (reg\<lparr>paymentStatus := Approved, ticketId := Some t\<rparr>)
            \<and> (\<exists>v variant. variantId reg = Some v
                  \<and> variant_by_id (merchandiseVariants event) v = Some variant
                  \<and> stock_of (snd ?r) k v = Some (stock variant - quantity reg)))"
    if a: "approvable event reg"
  proof -
    from approveOrder_approvable [OF o f a, where ms = ms and rnd = rnd]
    obtain v variant where v: "variantId reg = Some v"
        "variant_by_id (merchandiseVariants event) v = Some variant"
      and r: "?r = (if ticket_taken s regId ?t
                  then (Inl ServerError,
                        s\<lparr>events := event_save
                             (event\<lparr>merchandiseVariants :=
                                       dec_stock v (quantity reg) (merchandiseVariants event)\<rparr>)
                             (events s)\<rparr>)
                  else (if findUser (users s) (participantId reg) = None
                        then Inl ServerError else Inr ?t,
                        s\<lparr>events := event_save
                             (event\<lparr>merchandiseVariants :=
                                       dec_stock v (quantity reg) (merchandiseVariants event)\<rparr>)
                             (events s),
                          registrations := registration_save ?reg (registrations s)\<rparr>))"
      by blast
    show ?thesis
    proof (cases "\<not> ticket_taken s regId ?t \<and> findUser (users s) (participantId reg) \<noteq> None")
      case False
      with r show ?thesis by auto
    next
      case True
      let ?s = "s\<lparr>events := event_save
                     (event\<lparr>merchandiseVariants :=
                               dec_stock v (quantity reg) (merchandiseVariants event)\<rparr>)
                     (events s),
                   registrations := registration_save ?reg (registrations s)\<rparr>"
      from r True have r': "?r = (Inr ?t, ?s)" by auto
      have g: "findOrder (registrations ?s) regId k = Some ?reg"
        using find_registration_save [OF f [unfolded findOrder_def], of ?reg] rid
        by (simp add: findOrder_def)
      have st: "stock_of ?s k v = Some (stock variant - quantity reg)"
        using stock_of_event_save [OF ev v(2)] by simp
      have tt: "\<not> ticket_taken ?s regId ?t"
        using ticket_taken_registration_save [where s = s and reg' = ?reg and t = ?t] rid True
        by simp
      from r' g st tt v True show ?thesis by (auto simp: generateTicketId_nonempty)
    qed
  qed
  have 1: "(\<exists>t. fst ?r = Inr t)
            \<longleftrightarrow> approvable event reg \<and> \<not> ticket_taken s regId ?t
                \<and> findUser (users s) (participantId reg) \<noteq> None"
    using n y by blast
  have 2: "\<forall>t. fst ?r = Inr t \<longrightarrow>
            t = ?t \<and> t \<noteq> [] \<and> \<not> ticket_taken (snd ?r) regId t
            \<and> findOrder (registrations (snd ?r)) regId k
                = Some (reg\<lparr>paymentStatus := Approved, ticketId := Some t\<rparr>)
            \<and> (\<exists>v variant. variantId reg = Some v
                  \<and> variant_by_id (merchandiseVariants event) v = Some variant
                  \<and> stock_of (snd ?r) k v = Some (stock variant - quantity reg))"
    using n y by blast
  have 4: "paymentStatus reg = Pending \<and> \<not> approvable event reg \<longrightarrow>
            ?r = (Inl InsufficientStockToApprove, s)"
    using approveOrder_no_stock [OF o f] by blast
  have 5: "paymentStatus reg \<in> {Approved, Rejected} \<longrightarrow>
            ?r = (Inl OnlyPendingApproved, s)
            \<and> rejectOrder s caller k regId = (Inl OnlyPendingRejected, s)
            \<and> http_status OnlyPendingApproved = 400 \<and> http_status OnlyPendingRejected = 400"
    using approveOrder_not_pending [OF o f, where ms = ms and rnd = rnd]
      rejectOrder_not_pending [OF o f] by auto
  from 1 2 4 5 show ?thesis by blast
qed

theorem approveOrder_transitions_witness:
  "fst (approveOrder db2 20 2 1 ''60'' ''XY'') = Inr ''TKT-60-XY''
   \<and> stock_of db2 2 1 = Some 5
   \<and> stock_of (snd (approveOrder db2 20 2 1 ''60'' ''XY'')) 2 1 = Some 3
   \<and> findOrder (registrations (snd (approveOrder db2 20 2 1 ''60'' ''XY''))) 1 2
       = Some (bob_order\<lparr>paymentStatus := Approved, ticketId := Some ''TKT-60-XY''\<rparr>)
   \<and> approveOrder (snd (approveOrder db2 20 2 1 ''60'' ''XY'')) 20 2 1 ''61'' ''ZZ''
       = (Inl OnlyPendingApproved, snd (approveOrder db2 20 2 1 ''60'' ''XY''))
   \<and> rejectOrder (snd (approveOrder db2 20 2 1 ''60'' ''XY'')) 20 2 1
       = (Inl OnlyPendingRejected, snd (approveOrder db2 20 2 1 ''60'' ''XY''))
   \<and> approveOrder (db2\<lparr>registrations := [bob_order\<lparr>quantity := 9\<rparr>]\<rparr>) 20 2 1 ''60'' ''XY''
       = (Inl InsufficientStockToApprove, db2\<lparr>registrations := [bob_order\<lparr>quantity := 9\<rparr>]\<rparr>)
   \<and> isl (fst (approveOrder db5 20 2 1 ''50'' ''AB''))"
proof -
  let ?shop = "tshirts\<lparr>requiresPaymentApproval := True\<rparr>"
  let ?M = "\<lparr>vid = 1, vsize = ''M'', color = ''red'', stock = 5, price = 300\<rparr>"
  let ?s = "snd (approveOrder db2 20 2 1 ''60'' ''XY'')"
  let ?approved = "bob_order\<lparr>paymentStatus := Approved, ticketId := Some ''TKT-60-XY''\<rparr>"
  let ?big = "bob_order\<lparr>quantity := 9\<rparr>"
  let ?sb = "db2\<lparr>registrations := [?big]\<rparr>"
  have g: "generateTicketId ''60'' ''XY'' = ''TKT-60-XY''" by (simp add: generateTicketId_def)
  have o: "owns db2 20 2 ?shop" and ob: "owns ?sb 20 2 ?shop" and o5: "owns db5 20 2 ?shop"
    by (simp_all add: owns_def db2_def db5_def db0_def findOrganizer_def findById_def fest_def
        tshirts_def)
  have f: "findOrder (registrations db2) 1 2 = Some bob_order"
    and fb: "findOrder (registrations ?sb) 1 2 = Some ?big"
    and f5: "findOrder (registrations db5) 1 2 = Some bob_order"
    by (simp_all add: findOrder_def db2_def db5_def bob_order_def)
  have a: "approvable ?shop bob_order" and nb: "\<not> approvable ?shop ?big"
    and pb: "paymentStatus ?big = Pending"
    by (simp_all add: approvable_def bob_order_def tshirts_def variant_by_id_def)
  have t: "\<not> ticket_taken db2 1 (generateTicketId ''60'' ''XY'')"
    by (simp add: ticket_taken_def db2_def bob_order_def)
  have t5: "ticket_taken db5 1 (generateTicketId ''50'' ''AB'')"
    by (simp add: ticket_taken_def generateTicketId_def db5_def db2_def bob_order_def
        alice_reg_def)
  have u: "findUser (users db2) (participantId bob_order) \<noteq> None"
    by (simp add: findUser_def db2_def db0_def bob_order_def alice_def bob_def)
  have vM: "variantId bob_order = Some 1 \<and> quantity bob_order = 2
      \<and> variant_by_id (merchandiseVariants ?shop) 1 = Some ?M"
    by (simp add: bob_order_def tshirts_def variant_by_id_def)
  have s0: "stock_of db2 2 1 = Some 5"
    by (simp add: stock_of_def findById_def db2_def fest_def tshirts_def variant_by_id_def)
  note first = approveOrder_transitions [OF o f, where ms = "''60''" and rnd = "''XY''"]
  from first a t u obtain tk where tk: "fst (approveOrder db2 20 2 1 ''60'' ''XY'') = Inr tk"
    by blast
  from first tk have tg: "tk = generateTicketId ''60'' ''XY''"
    and 2: "findOrder (registrations ?s) 1 2
              = Some (bob_order\<lparr>paymentStatus := Approved, ticketId := Some tk\<rparr>)"
    and 3: "\<exists>v variant. variantId bob_order = Some v
                  \<and> variant_by_id (merchandiseVariants ?shop) v = Some variant
                  \<and> stock_of ?s 2 v = Some (stock variant - quantity bob_order)"
    by blast+
  from tk tg g have 1: "fst (approveOrder db2 20 2 1 ''60'' ''XY'') = Inr ''TKT-60-XY''" by simp
  from 2 tg g have 2: "findOrder (registrations ?s) 1 2 = Some ?approved" by simp
  from 3 vM have 4: "stock_of ?s 2 1 = Some 3" by auto
  have o': "owns ?s 20 2
      (?shop\<lparr>merchandiseVariants := dec_stock 1 2 (merchandiseVariants ?shop)\<rparr>)"
    by (simp add: owns_def approveOrder_def db2_def db0_def findOrganizer_def findById_def
        findOrder_def fest_def tshirts_def bob_order_def registration_defaults_def
        variant_by_id_def index_ticketId_def event_save_def registration_save_def
        findUser_def alice_def bob_def Let_def)
  have ps: "paymentStatus ?approved \<in> {Approved, Rejected}" by simp
  from approveOrder_transitions [OF o' 2, where ms = "''61''" and rnd = "''ZZ''"] ps
  have 5: "approveOrder ?s 20 2 1 ''61'' ''ZZ'' = (Inl OnlyPendingApproved, ?s)"
    and 6: "rejectOrder ?s 20 2 1 = (Inl OnlyPendingRejected, ?s)"
    by blast+
  from approveOrder_transitions [OF ob fb, where ms = "''60''" and rnd = "''XY''"] pb nb
  have 7: "approveOrder ?sb 20 2 1 ''60'' ''XY'' = (Inl InsufficientStockToApprove, ?sb)"
    by blast
  from approveOrder_transitions [OF o5 f5, where ms = "''50''" and rnd = "''AB''"] t5
  have "\<not> (\<exists>t. fst (approveOrder db5 20 2 1 ''50'' ''AB'') = Inr t)" by blast
  then have 8: "isl (fst (approveOrder db5 20 2 1 ''50'' ''AB''))"
    by (cases "fst (approveOrder db5 20 2 1 ''50'' ''AB'')") simp_all
  from 1 s0 4 2 5 6 7 8 show ?thesis by simp
qed

text \<open>
  Two Pending orders with stock for their quantity whose approval does not succeed. In
  the first the generated ticket identifier is one that another registration holds:
  \<open>reg.save()\<close> is refused after \<open>event.save()\<close> has lowered the stock, and the order stays
  Pending. In the second the participant's account is gone: the order is saved as
  Approved and the answer is still 500.
\<close>

theorem approveOrder_pending_with_stock_counterexample:
  "findOrder (registrations db5) 1 2 = Some bob_order
   \<and> approvable (tshirts\<lparr>requiresPaymentApproval := True\<rparr>) bob_order
   \<and> fst (approveOrder db5 20 2 1 ''50'' ''AB'') = Inl ServerError
   \<and> stock_of db5 2 1 = Some 5
   \<and> stock_of (snd (approveOrder db5 20 2 1 ''50'' ''AB'')) 2 1 = Some 3
   \<and> findOrder (registrations (snd (approveOrder db5 20 2 1 ''50'' ''AB''))) 1 2
       = Some bob_order
   \<and> findOrder (registrations db6) 1 2 = Some bob_order
   \<and> fst (approveOrder db6 20 2 1 ''60'' ''XY'') = Inl ServerError"
  by (simp add: approveOrder_def approvable_def stock_of_def db5_def db6_def db2_def db0_def
      findOrganizer_def findById_def findOrder_def findUser_def fest_def tshirts_def
      bob_order_def alice_reg_def alice_def registration_defaults_def variant_by_id_def
      index_ticketId_def generateTicketId_def event_save_def registration_save_def Let_def)

section \<open>Editing a Published event\<close>









lemma editEvent_outcome:
  "case editEvent s caller k updates now of
     (Inl err, s') \<Rightarrow> s' = s
   | (Inr e, s') \<Rightarrow> s' = s\<lparr>events := event_save e (events s)\<rparr>"
  by (simp add: editEvent_def Let_def
      split: option.split sum.split list.split field_update.split)


lemma editEvent_published:
  assumes "owns s caller k event" "getEffectiveStatus event now = Published"
  shows "editEvent s caller k updates now
           = (case published_loop event updates of
                Inl err \<Rightarrow> (Inl err, s)
              | Inr e \<Rightarrow>
                  if \<forall>u \<in> set updates. path_valid e u
                  then (Inr e, s\<lparr>events := event_save e (events s)\<rparr>)
                  else (Inl ServerError, s))"
  using owns_unfold [OF assms(1)] assms(2)
  by (auto simp: editEvent_def Let_def)



lemma eid_assign [simp]: "eid (assign e u) = eid e"
  by (cases u) simp_all

lemma eid_Object_assign [simp]: "eid (Object_assign e us) = eid e"
  unfolding Object_assign_def by (induction us arbitrary: e) simp_all



section \<open>One registration per event and participant\<close>

lemma Registration_create_refuses_duplicate:
  "r \<in> set rs \<Longrightarrow> eventId r = eventId d \<Longrightarrow> participantId r = participantId d
    \<Longrightarrow> Registration_create rs d = None"
  by (auto simp: Registration_create_def Let_def index_event_participant_def)

lemma Registration_create_distinct:
  assumes "Registration_create rs d = Some (doc, rs')"
    and "distinct (map rid rs)"
    and "distinct (map (\<lambda>r. (eventId r, participantId r)) rs)"
  shows "distinct (map rid rs') \<and> distinct (map (\<lambda>r. (eventId r, participantId r)) rs')"
proof -
  from assms(1) have doc: "doc = d\<lparr>rid := fresh_id (map rid rs)\<rparr>" and rs': "rs' = rs @ [doc]"
    and i: "index_event_participant rs doc"
    by (auto simp: Registration_create_def Let_def split: if_splits)
  have "rid doc \<notin> set (map rid rs)" using fresh_id_fresh [of "map rid rs"] doc by simp
  moreover have "(eventId doc, participantId doc) \<notin> set (map (\<lambda>r. (eventId r, participantId r)) rs)"
    using i by (auto simp: index_event_participant_def)
  ultimately show ?thesis using assms(2,3) rs' by simp
qed

lemma registration_save_maps:
  assumes f: "find P rs = Some reg" and r: "rid reg' = rid reg"
    and e: "eventId reg' = eventId reg" and p: "participantId reg' = participantId reg"
    and d: "distinct (map rid rs)"
  shows "map rid (registration_save reg' rs) = map rid rs"
    and "map (\<lambda>r. (eventId r, participantId r)) (registration_save reg' rs)
           = map (\<lambda>r. (eventId r, participantId r)) rs"
proof -
  show "map rid (registration_save reg' rs) = map rid rs"
    by (simp add: registration_save_def comp_def cong: map_cong)
  from f have m: "reg \<in> set rs" by (auto simp: find_Some_iff)
  from d have inj: "inj_on rid (set rs)" by (simp add: distinct_map)
  have "x = reg" if "x \<in> set rs" "rid x = rid reg'" for x
    using that m r inj by (auto dest: inj_onD)
  then show "map (\<lambda>r. (eventId r, participantId r)) (registration_save reg' rs)
           = map (\<lambda>r. (eventId r, participantId r)) rs"
    using e p by (auto simp: registration_save_def)
qed

lemma ledger_step_ok:
  assumes "ledger_step rs rs'"
    and "distinct (map rid rs)" "distinct (map (\<lambda>r. (eventId r, participantId r)) rs)"
  shows "distinct (map rid rs') \<and> distinct (map (\<lambda>r. (eventId r, participantId r)) rs')"
  using assms
proof (induction rule: ledger_step.induct)
  case (same rs)
  then show ?case by simp
next
  case (created rs d doc rs')
  then show ?case using Registration_create_distinct by blast
next
  case (saved P rs reg reg')
  from registration_save_maps [OF saved(1-4) saved(5)] saved(5,6) show ?case by simp
next
  case (deleted rs Q)
  then show ?case by (simp add: distinct_map_filter)
qed

lemma ledger_step_register:
  "ledger_step (registrations s) (registrations (snd (register s c k form now ms rnd)))"
  apply (simp add: register_def Let_def ledger_step.same split: option.split prod.split)
  apply (blast intro: ledger_step.created)
  done

lemma ledger_step_placeOrder:
  "ledger_step (registrations s) (registrations (snd (placeOrder s c k v q now ms rnd)))"
  apply (simp add: placeOrder_def Let_def ledger_step.same split: option.split prod.split)
  apply (blast intro: ledger_step.created)
  done

lemma ledger_step_uploadProof:
  "ledger_step (registrations s) (registrations (snd (uploadProof s c k r url)))"
  by (auto simp: uploadProof_def Let_def split: option.split
      intro: ledger_step.same intro!: ledger_step.saved)

lemma ledger_step_approveOrder:
  "ledger_step (registrations s) (registrations (snd (approveOrder s c k r ms rnd)))"
  by (auto simp: approveOrder_def findOrder_def Let_def split: option.split prod.split
      intro: ledger_step.same intro!: ledger_step.saved)

lemma ledger_step_rejectOrder:
  "ledger_step (registrations s) (registrations (snd (rejectOrder s c k r)))"
  by (auto simp: rejectOrder_def findOrder_def Let_def split: option.split
      intro: ledger_step.same intro!: ledger_step.saved)

lemma ledger_step_scan:
  "ledger_step (registrations s) (registrations (snd (scan s c k tid now)))"
  by (auto simp: scan_def Let_def split: option.split
      intro: ledger_step.same intro!: ledger_step.saved)

lemma ledger_step_attendanceOverride:
  "ledger_step (registrations s)
     (registrations (snd (attendanceOverride s c k r a reason now)))"
  by (auto simp: attendanceOverride_def findOrder_def Let_def split: option.split
      intro: ledger_step.same intro!: ledger_step.saved)

lemma ledger_step_editEvent:
  "registrations (snd (editEvent s c k us now)) = registrations s"
  using editEvent_outcome [of s c k us now]
  by (cases "editEvent s c k us now") (auto split: sum.splits)

lemma ledger_step_step: "ledger_step (registrations s) (registrations (step s req))"
proof (cases req)
  case (CreateEvent c body)
  then show ?thesis
    by (auto simp: createEvent_def Let_def split: option.split intro: ledger_step.same)
next
  case (EditEvent c k us now)
  then show ?thesis by (simp add: ledger_step_editEvent ledger_step.same)
next
  case (DeleteEvent c k now)
  then show ?thesis
    by (auto simp: deleteEvent_def split: option.split
        intro: ledger_step.same ledger_step.deleted)
qed (simp_all add: ledger_step_register ledger_step_placeOrder ledger_step_uploadProof
    ledger_step_approveOrder ledger_step_rejectOrder ledger_step_scan
    ledger_step_attendanceOverride)

lemma ledger_ok_step: "ledger_ok s \<Longrightarrow> ledger_ok (step s req)"
  using ledger_step_ok [OF ledger_step_step [of s req]] by (simp add: ledger_ok_def)

lemma ledger_ok_run: "ledger_ok s \<Longrightarrow> ledger_ok (run s reqs)"
  unfolding run_def by (induction reqs arbitrary: s) (simp_all add: ledger_ok_step)

lemma distinct_pair_count:
  "distinct (map f xs) \<Longrightarrow> length (filter (\<lambda>x. f x = y) xs) \<le> 1"
  by (induction xs) (auto simp: filter_empty_conv image_iff)

lemma ledger_ok_pair_count: "ledger_ok s \<Longrightarrow> pair_count s k p \<le> 1"
proof -
  assume "ledger_ok s"
  then have "distinct (map (\<lambda>r. (eventId r, participantId r)) (registrations s))"
    by (simp add: ledger_ok_def)
  from distinct_pair_count [OF this, of "(k, p)"] show ?thesis
    by (simp add: pair_count_def)
qed


lemma findRegistration_pair_count:
  "findRegistration (registrations s) k p \<noteq> None \<longleftrightarrow> 1 \<le> pair_count s k p"
  by (auto simp: findRegistration_def pair_count_def find_None_iff filter_empty_conv
      Suc_le_eq)

lemma register_existing:
  assumes "findRegistration (registrations s) k p \<noteq> None"
  shows "isl (fst (register s p k form now ms rnd)) \<and> snd (register s p k form now ms rnd) = s"
proof (cases "findById (events s) k")
  case None
  then show ?thesis by (simp add: register_def)
next
  case (Some event)
  with assms findById_eid [OF Some] show ?thesis
    by (simp add: register_def Let_def split: option.split)
qed

lemma placeOrder_existing:
  assumes "findRegistration (registrations s) k p \<noteq> None"
  shows "isl (fst (placeOrder s p k v q now ms rnd)) \<and> snd (placeOrder s p k v q now ms rnd) = s"
proof (cases "findById (events s) k")
  case None
  then show ?thesis by (simp add: placeOrder_def)
next
  case (Some event)
  with assms findById_eid [OF Some] show ?thesis
    by (simp add: placeOrder_def Let_def split: option.split)
qed

lemma register_duplicate_error:
  assumes "findById (events s) k = Some event" "accepting s p event Normal now"
    and "\<not> (case registrationLimit event of
              None \<Rightarrow> False
            | Some lim \<Rightarrow> lim \<noteq> 0 \<and> countDocuments (registrations s) k \<ge> lim)"
    and "findRegistration (registrations s) k p \<noteq> None"
  shows "register s p k form now ms rnd = (Inl AlreadyRegistered, s)"
proof -
  from findById_eid [OF assms(1)] have k: "k = eid event" by simp
  show ?thesis using assms unfolding k
    by (simp add: register_def Let_def accepting_def)
qed

lemma placeOrder_duplicate_error:
  assumes "findById (events s) k = Some event" "accepting s p event Merchandise now"
    and "variant_by_id (merchandiseVariants event) v = Some variant"
    and "sum_list (map quantity (filter (\<lambda>r. eventId r = k \<and> participantId r = p)
            (registrations s))) + (case q of None \<Rightarrow> 1 | Some n \<Rightarrow> n)
          \<le> purchaseLimitPerUser event"
    and "findRegistration (registrations s) k p \<noteq> None"
  shows "placeOrder s p k (Some v) q now ms rnd = (Inl ActiveOrderExists, s)"
proof -
  from findById_eid [OF assms(1)] have k: "k = eid event" by simp
  show ?thesis using assms unfolding k
    by (simp add: placeOrder_def Let_def accepting_def)
qed

text \<open>
  C2. In every database that the storage layer can hold (unique object ids, unique
  compound keys; the empty collection is one) and after every sequence of requests of the
  event router, a pair of event and participant has at most one registration. The
  compound index alone refuses a second document for a pair, whatever the handler read
  before. When the pair has a registration, a register call and an order call of that
  participant for that event are rejected and change nothing; the rejection is the
  duplicate answer ("Already registered.", "You already have an active order for this
  event.") when the request passes the guards that the handler applies before its
  duplicate test.
\<close>

theorem one_registration_per_pair:
  assumes ok: "ledger_ok s"
  shows "pair_count (run s reqs) k p \<le> 1
       \<and> (1 \<le> pair_count s k p \<longrightarrow>
            (\<forall>d. eventId d = k \<and> participantId d = p
                 \<longrightarrow> Registration_create (registrations s) d = None)
            \<and> isl (fst (register s p k form now ms rnd))
            \<and> snd (register s p k form now ms rnd) = s
            \<and> isl (fst (placeOrder s p k vreq q now ms rnd))
            \<and> snd (placeOrder s p k vreq q now ms rnd) = s
            \<and> (\<forall>event. findById (events s) k = Some event
                   \<and> accepting s p event Normal now
                   \<and> \<not> (case registrationLimit event of
                            None \<Rightarrow> False
                          | Some lim \<Rightarrow> lim \<noteq> 0 \<and> countDocuments (registrations s) k \<ge> lim)
                 \<longrightarrow> register s p k form now ms rnd = (Inl AlreadyRegistered, s))
            \<and> (\<forall>event v variant. findById (events s) k = Some event
                   \<and> accepting s p event Merchandise now
                   \<and> variant_by_id (merchandiseVariants event) v = Some variant
                   \<and> sum_list (map quantity
                         (filter (\<lambda>r. eventId r = k \<and> participantId r = p) (registrations s)))
                       + (case q of None \<Rightarrow> 1 | Some n \<Rightarrow> n)
                     \<le> purchaseLimitPerUser event
                 \<longrightarrow> placeOrder s p k (Some v) q now ms rnd = (Inl ActiveOrderExists, s)))"
proof (intro conjI impI allI)
  show "pair_count (run s reqs) k p \<le> 1"
    using ledger_ok_run [OF ok] by (rule ledger_ok_pair_count)
next
  fix d :: registration
  assume c: "1 \<le> pair_count s k p" and d: "eventId d = k \<and> participantId d = p"
  from c obtain r where "r \<in> set (registrations s)" "eventId r = k" "participantId r = p"
    by (auto simp: pair_count_def Suc_le_eq filter_empty_conv)
  with d show "Registration_create (registrations s) d = None"
    by (intro Registration_create_refuses_duplicate [of r]) simp_all
next
  assume "1 \<le> pair_count s k p"
  then have f: "findRegistration (registrations s) k p \<noteq> None"
    using findRegistration_pair_count [of s k p] by simp
  from register_existing [OF f]
  show "isl (fst (register s p k form now ms rnd))" "snd (register s p k form now ms rnd) = s"
    by simp_all
  from placeOrder_existing [OF f]
  show "isl (fst (placeOrder s p k vreq q now ms rnd))" "snd (placeOrder s p k vreq q now ms rnd) = s"
    by simp_all
  {
    fix event
    assume "findById (events s) k = Some event
                   \<and> accepting s p event Normal now
                   \<and> \<not> (case registrationLimit event of
                            None \<Rightarrow> False
                          | Some lim \<Rightarrow> lim \<noteq> 0 \<and> countDocuments (registrations s) k \<ge> lim)"
    then show "register s p k form now ms rnd = (Inl AlreadyRegistered, s)"
      using register_duplicate_error [of s k event p now, OF _ _ _ f] by blast
  }
  {
    fix event v variant
    assume "findById (events s) k = Some event
                   \<and> accepting s p event Merchandise now
                   \<and> variant_by_id (merchandiseVariants event) v = Some variant
                   \<and> sum_list (map quantity
                         (filter (\<lambda>r. eventId r = k \<and> participantId r = p) (registrations s)))
                       + (case q of None \<Rightarrow> 1 | Some n \<Rightarrow> n)
                     \<le> purchaseLimitPerUser event"
    then show "placeOrder s p k (Some v) q now ms rnd = (Inl ActiveOrderExists, s)"
      using placeOrder_duplicate_error [of s k event p now v variant q, OF _ _ _ _ f] by blast
  }
qed


theorem one_registration_per_pair_witness:
  "pair_count (run db0 [Register 10 1 [] 50 ''50'' ''AB'', Register 10 1 [] 60 ''60'' ''CD'',
                        PlaceOrder 10 2 (Some 1) (Some 1) 70 ''70'' ''EF'',
                        PlaceOrder 10 2 (Some 1) (Some 1) 80 ''80'' ''GH'']) 1 10 \<le> 1
   \<and> pair_count db1 1 10 = 1
   \<and> Registration_create (registrations db1) (registration_defaults 1 10) = None
   \<and> register db1 10 1 [] 60 ''60'' ''CD'' = (Inl AlreadyRegistered, db1)
   \<and> pair_count db3 2 10 = 1
   \<and> placeOrder db3 10 2 (Some 1) (Some 1) 80 ''80'' ''GH'' = (Inl ActiveOrderExists, db3)"
proof -
  let ?M = "\<lparr>vid = 1, vsize = ''M'', color = ''red'', stock = 5, price = 300\<rparr>"
  have ok0: "ledger_ok db0" and ok1: "ledger_ok db1" and ok3: "ledger_ok db3"
    by (simp_all add: ledger_ok_def db0_def db1_def db3_def)
  have c1: "pair_count db1 1 10 = 1" and c3: "pair_count db3 2 10 = 1"
    by (simp_all add: pair_count_def db1_def db3_def alice_reg_def alice_order_def)
  have e1: "findById (events db1) 1 = Some fest" and e3: "findById (events db3) 2 = Some tshirts"
    by (simp_all add: findById_def db1_def db3_def db0_def fest_def tshirts_def)
  have a1: "accepting db1 10 fest Normal 60" and a3: "accepting db3 10 tshirts Merchandise 80"
    by (simp_all add: accepting_def fest_def tshirts_def getEffectiveStatus_def
        eligibility_check_def)
  have l1: "\<not> (case registrationLimit fest of
                 None \<Rightarrow> False
               | Some lim \<Rightarrow> lim \<noteq> 0 \<and> countDocuments (registrations db1) 1 \<ge> lim)"
    by (simp add: fest_def)
  have v3: "variant_by_id (merchandiseVariants tshirts) 1 = Some ?M"
    by (simp add: variant_by_id_def tshirts_def)
  have p3: "sum_list (map quantity
              (filter (\<lambda>r. eventId r = 2 \<and> participantId r = 10) (registrations db3)))
            + (case Some 1 of None \<Rightarrow> 1 | Some n \<Rightarrow> n)
          \<le> purchaseLimitPerUser tshirts"
    by (simp add: db3_def alice_order_def tshirts_def)
  have d1: "eventId (registration_defaults 1 10) = 1 \<and> participantId (registration_defaults 1 10) = 10"
    by simp
  note t0 = one_registration_per_pair [OF ok0, where k = 1 and p = 10 and reqs =
      "[Register 10 1 [] 50 ''50'' ''AB'', Register 10 1 [] 60 ''60'' ''CD'',
        PlaceOrder 10 2 (Some 1) (Some 1) 70 ''70'' ''EF'',
        PlaceOrder 10 2 (Some 1) (Some 1) 80 ''80'' ''GH'']"]
  note t1 = one_registration_per_pair [OF ok1, where reqs = "[]" and k = 1 and p = 10
      and form = "[]" and now = 60 and ms = "''60''" and rnd = "''CD''" and vreq = None and q = None]
  note t3 = one_registration_per_pair [OF ok3, where reqs = "[]" and k = 2 and p = 10
      and form = "[]" and now = 80 and ms = "''80''" and rnd = "''GH''" and vreq = None and q = "Some 1"]
  from t0 have 1: "pair_count (run db0 [Register 10 1 [] 50 ''50'' ''AB'',
        Register 10 1 [] 60 ''60'' ''CD'', PlaceOrder 10 2 (Some 1) (Some 1) 70 ''70'' ''EF'',
        PlaceOrder 10 2 (Some 1) (Some 1) 80 ''80'' ''GH'']) 1 10 \<le> 1"
    by (rule conjunct1)
  from c1 c3 have g1: "1 \<le> pair_count db1 1 10" and g3: "1 \<le> pair_count db3 2 10"
    by simp_all
  from t1 g1 d1 have 2: "Registration_create (registrations db1) (registration_defaults 1 10) = None"
    by blast
  from t1 g1 e1 a1 l1 have 3: "register db1 10 1 [] 60 ''60'' ''CD'' = (Inl AlreadyRegistered, db1)"
    by blast
  from t3 g3 e3 a3 v3 p3
  have 4: "placeOrder db3 10 2 (Some 1) (Some 1) 80 ''80'' ''GH'' = (Inl ActiveOrderExists, db3)"
    by blast
  from 1 c1 2 3 c3 4 show ?thesis by simp
qed

text \<open>
  The second order of a participant under the default purchase limit of 1: the handler
  tests the purchase limit before the duplicate, so the answer is the purchase-limit one.
\<close>

theorem second_order_purchase_limit_counterexample:
  "\<not> isl (fst (placeOrder db4 10 2 (Some 1) None 50 ''50'' ''AB''))
   \<and> pair_count (snd (placeOrder db4 10 2 (Some 1) None 50 ''50'' ''AB'')) 2 10 = 1
   \<and> fst (placeOrder (snd (placeOrder db4 10 2 (Some 1) None 50 ''50'' ''AB''))
            10 2 (Some 1) None 60 ''60'' ''CD'')
       = Inl (PurchaseLimit 1)
   \<and> PurchaseLimit 1 \<noteq> ActiveOrderExists"
proof -
  let ?shop = "tshirts\<lparr>purchaseLimitPerUser := 1\<rparr>"
  let ?M = "\<lparr>vid = 1, vsize = ''M'', color = ''red'', stock = 5, price = 300\<rparr>"
  have ev: "findById (events db4) 2 = Some ?shop"
    by (simp add: findById_def db4_def db0_def fest_def tshirts_def)
  have acc: "accepting db4 10 ?shop Merchandise 50"
    by (simp add: accepting_def tshirts_def getEffectiveStatus_def eligibility_check_def)
  have vM: "variant_by_id (merchandiseVariants ?shop) 1 = Some ?M"
    by (simp add: variant_by_id_def tshirts_def)
  have lim: "1 \<le> purchaseLimitPerUser ?shop" and imm: "\<not> requiresPaymentApproval ?shop"
    and st: "1 \<le> stock ?M"
    by (simp_all add: tshirts_def)
  have nodup: "findRegistration (registrations db4) 2 10 = None"
    by (simp add: findRegistration_def db4_def db0_def)
  have tk: "unused_ticket db4 (generateTicketId ''50'' ''AB'')"
    by (simp add: unused_ticket_def generateTicketId_def db4_def db0_def)
  have us: "findUser (users db4) 10 \<noteq> None"
    by (simp add: findUser_def db4_def db0_def alice_def)
  from placeOrder_immediate [OF ev acc vM lim nodup imm st tk us]
  obtain reg where r: "placeOrder db4 10 2 (Some 1) (Some 1) 50 ''50'' ''AB''
           = (Inr reg,
              db4\<lparr>events := event_save
                   (?shop\<lparr>merchandiseVariants := dec_stock 1 1 (merchandiseVariants ?shop)\<rparr>)
                   (events db4),
                registrations := registrations db4 @ [reg]\<rparr>)"
    and q: "quantity reg = 1" "eventId reg = 2" "participantId reg = 10"
    by blast
  let ?s = "db4\<lparr>events := event_save
                   (?shop\<lparr>merchandiseVariants := dec_stock 1 1 (merchandiseVariants ?shop)\<rparr>)
                   (events db4),
                registrations := registrations db4 @ [reg]\<rparr>"
  have r': "placeOrder db4 10 2 (Some 1) None 50 ''50'' ''AB'' = (Inr reg, ?s)"
    using r by (simp add: placeOrder_default_quantity)
  have c: "pair_count ?s 2 10 = 1"
    using q by (simp add: pair_count_def db4_def db0_def)
  have "fst (placeOrder ?s 10 2 (Some 1) None 60 ''60'' ''CD'') = Inl (PurchaseLimit 1)"
    using q
    by (simp add: placeOrder_def Let_def db4_def db0_def findById_def event_save_def
        fest_def tshirts_def getEffectiveStatus_def eligibility_check_def variant_by_id_def
        findUser_def alice_def)
  with r' c show ?thesis by simp
qed

section \<open>The form lock\<close>

lemma findById_append:
  "findById evs k = Some e \<Longrightarrow> findById (evs @ [x]) k = Some e"
  by (induction evs) (auto simp: findById_def)

lemma findById_event_save_other:
  "eid e' \<noteq> k \<Longrightarrow> findById (event_save e' evs) k = findById evs k"
  by (induction evs) (auto simp: findById_def event_save_def)

lemma findById_removed:
  "findById (filter (\<lambda>e. eid e \<noteq> k') evs) k = (if k = k' then None else findById evs k)"
  by (induction evs) (auto simp: findById_def)

lemma form_step_locked:
  assumes "form_step k evs evs'" "findById evs k = Some e" "isFormLocked e"
    and "findById evs' k = Some e'"
  shows "isFormLocked e' \<and> customForm e' = customForm e"
  using assms
proof (induction rule: form_step.induct)
  case (same k evs)
  then show ?case by simp
next
  case (added k evs x)
  from findById_append [OF added(1), of x] added show ?case by simp
next
  case (saved evs k e0 e1)
  from findById_event_save [OF saved(1) saved(2)] saved show ?case by simp
next
  case (other e1 k evs)
  from findById_event_save_other [OF other(1), of evs] other show ?case by simp
next
  case (removed k evs k')
  then show ?case by (simp add: findById_removed split: if_splits)
qed

lemma form_step_save:
  assumes "findById evs k2 = Some e" "eid e' = eid e" "isFormLocked e \<longrightarrow> isFormLocked e'"
    and "customForm e' = customForm e"
  shows "form_step k evs (event_save e' evs)"
proof (cases "k2 = k")
  case True
  with assms findById_eid [OF assms(1)] show ?thesis by (intro form_step.saved) auto
next
  case False
  with assms findById_eid [OF assms(1)] show ?thesis by (intro form_step.other) auto
qed

lemma form_step_register:
  "form_step k (events s) (events (snd (register s c k2 form now ms rnd)))"
  apply (simp add: register_def Let_def form_step.same split: option.split prod.split)
  apply (auto intro!: form_step_save)
  done

lemma form_step_placeOrder:
  "form_step k (events s) (events (snd (placeOrder s c k2 v q now ms rnd)))"
  apply (simp add: placeOrder_def Let_def form_step.same split: option.split prod.split)
  apply (auto intro!: form_step_save)
  done

lemma form_step_approveOrder:
  "form_step k (events s) (events (snd (approveOrder s c k2 r ms rnd)))"
  apply (simp add: approveOrder_def Let_def form_step.same split: option.split prod.split)
  apply (auto intro!: form_step_save)
  done

lemma published_loop_form:
  "published_loop e us = Inr e'
    \<Longrightarrow> isFormLocked e' = isFormLocked e \<and> customForm e' = customForm e \<and> eid e' = eid e"
proof (induction us arbitrary: e)
  case Nil
  then show ?case by simp
next
  case (Cons u us)
  from Cons.prems have a: "key_of u \<in> set allowed"
    and r: "published_loop (assign e u) us = Inr e'"
    by (auto split: if_splits)
  from a have "isFormLocked (assign e u) = isFormLocked e
      \<and> customForm (assign e u) = customForm e"
    by (cases u) (simp_all add: allowed_def)
  with Cons.IH [OF r] show ?case by simp
qed

lemma form_step_editEvent:
  assumes "\<not> draft_edit s k (EditEvent c k2 us now)"
  shows "form_step k (events s) (events (snd (editEvent s c k2 us now)))"
proof (cases "findById (events s) k2")
  case None
  then show ?thesis by (simp add: editEvent_def form_step.same split: option.split)
next
  case (Some event)
  note ev = Some
  have k2: "eid event = k2" using ev by (rule findById_eid)
  show ?thesis
  proof (cases "getEffectiveStatus event now = Draft")
    case True
    with assms ev have "k2 \<noteq> k" by (auto simp: draft_edit_def)
    then have "form_step k (events s) (event_save (Object_assign event us) (events s))"
      using k2 by (intro form_step.other) simp
    with True ev show ?thesis
      by (simp add: editEvent_def Let_def form_step.same split: option.split)
  next
    case False
    have p: "form_step k (events s) (event_save e' (events s))"
      if "published_loop event us = Inr e'" for e'
      using published_loop_form [OF that] ev by (intro form_step_save [of _ k2 event]) simp_all
    have o: "form_step k (events s) (event_save (event\<lparr>statusOverride := v\<rparr>) (events s))" for v
      using ev by (intro form_step_save [of _ k2 event]) simp_all
    have c: "form_step k (events s) (event_save event (events s))"
      using ev by (intro form_step_save [of _ k2 event]) simp_all
    from False ev p o c show ?thesis
      by (simp add: editEvent_def Let_def form_step.same
          split: option.split sum.split list.split field_update.split)
  qed
qed

lemma form_step_step:
  assumes "\<not> draft_edit s k req"
  shows "form_step k (events s) (events (step s req))"
proof (cases req)
  case (CreateEvent c body)
  then show ?thesis
    by (simp add: createEvent_def Let_def form_step.same form_step.added split: option.split)
next
  case (EditEvent c k2 us now)
  with assms form_step_editEvent [of s k c k2 us now] show ?thesis by simp
next
  case (DeleteEvent c k2 now)
  then show ?thesis
    by (simp add: deleteEvent_def form_step.same form_step.removed split: option.split)
next
  case (Register c k2 form now ms rnd)
  then show ?thesis by (simp add: form_step_register)
next
  case (PlaceOrder c k2 v q now ms rnd)
  then show ?thesis by (simp add: form_step_placeOrder)
next
  case (UploadProof c k2 r url)
  then show ?thesis by (simp add: uploadProof_def Let_def form_step.same split: option.split)
next
  case (ApproveOrder c k2 r ms rnd)
  then show ?thesis by (simp add: form_step_approveOrder)
next
  case (RejectOrder c k2 r)
  then show ?thesis by (simp add: rejectOrder_def form_step.same split: option.split)
next
  case (Scan c k2 tid now)
  then show ?thesis by (simp add: scan_def Let_def form_step.same split: option.split)
next
  case (AttendanceOverride c k2 r a reason now)
  then show ?thesis
    by (simp add: attendanceOverride_def Let_def form_step.same split: option.split)
qed

lemma locked_step:
  assumes "locked s k cf" "\<not> draft_edit s k req" "findById (events (step s req)) k \<noteq> None"
  shows "locked (step s req) k cf"
proof -
  from assms(1) obtain e where e: "findById (events s) k = Some e" "isFormLocked e"
      "customForm e = cf"
    by (auto simp: locked_def split: option.splits)
  from assms(3) obtain e' where e': "findById (events (step s req)) k = Some e'" by auto
  from form_step_locked [OF form_step_step [OF assms(2)] e(1,2) e'] e(3) e'
  show ?thesis by (simp add: locked_def)
qed

lemma locked_run:
  "locked s k cf \<Longrightarrow> undisturbed s k reqs \<Longrightarrow> locked (run s reqs) k cf"
  unfolding run_def
  by (induction reqs arbitrary: s) (simp_all add: locked_step)

lemma register_locks:
  assumes "fst (register s c k form now ms rnd) = Inr reg"
  shows "\<exists>event. findById (events s) k = Some event \<and> etype event = Normal
           \<and> locked (snd (register s c k form now ms rnd)) k (customForm event)"
proof (cases "findById (events s) k")
  case None
  with assms show ?thesis by (simp add: register_def)
next
  case (Some event)
  have k: "eid event = k" using Some by (rule findById_eid)
  have l: "findById (event_save (event\<lparr>isFormLocked := True\<rparr>) (events s)) k
             = Some (event\<lparr>isFormLocked := True\<rparr>)"
    using findById_event_save [OF Some, of "event\<lparr>isFormLocked := True\<rparr>"] k by simp
  from assms Some l show ?thesis
    by (auto simp: register_def Let_def locked_def
        split: option.splits if_splits prod.splits)
qed


text \<open>
  C8. What the handlers do with the form lock. A successful registration sets
  isFormLocked, but the edit handler never reads the flag: the owner of a Published,
  Ongoing or Completed event can set statusOverride back to Draft, the event is a Draft at
  every time from then on, and an edit that reaches a Draft event assigns isFormLocked
  and customForm as the request says. So after a first registration the flag can be
  cleared and the custom form replaced.
\<close>

theorem draft_edit_rewrites_locked_form:
  assumes o: "owns s c k event"
  shows "(getEffectiveStatus event now \<in> {Published, Ongoing, Completed} \<longrightarrow>
            editEvent s c k [U_statusOverride Draft] now
              = (Inr (event\<lparr>statusOverride := Draft\<rparr>),
                 s\<lparr>events := event_save (event\<lparr>statusOverride := Draft\<rparr>) (events s)\<rparr>)
            \<and> getEffectiveStatus (event\<lparr>statusOverride := Draft\<rparr>) later = Draft)
       \<and> (getEffectiveStatus event now = Draft \<and> (\<forall>f \<in> set form. label f \<noteq> []) \<longrightarrow>
            fst (editEvent s c k [U_isFormLocked False, U_customForm form] now)
              = Inr (event\<lparr>isFormLocked := False, customForm := form\<rparr>)
            \<and> findById (events (snd (editEvent s c k
                  [U_isFormLocked False, U_customForm form] now))) k
                = Some (event\<lparr>isFormLocked := False, customForm := form\<rparr>)
            \<and> \<not> locked (snd (editEvent s c k
                  [U_isFormLocked False, U_customForm form] now)) k cf)"
proof -
  from owns_unfold [OF o] obtain org where
    org: "findOrganizer (organizers s) c = Some org" "organizerId event = oid org"
    and ev: "findById (events s) k = Some event" and k: "eid event = k"
    by blast
  have 1: "editEvent s c k [U_statusOverride Draft] now
              = (Inr (event\<lparr>statusOverride := Draft\<rparr>),
                 s\<lparr>events := event_save (event\<lparr>statusOverride := Draft\<rparr>) (events s)\<rparr>)
            \<and> getEffectiveStatus (event\<lparr>statusOverride := Draft\<rparr>) later = Draft"
    if st: "getEffectiveStatus event now \<in> {Published, Ongoing, Completed}"
  proof -
    have d: "getEffectiveStatus (event\<lparr>statusOverride := Draft\<rparr>) later = Draft"
      by (simp add: getEffectiveStatus_def)
    have "editEvent s c k [U_statusOverride Draft] now
              = (Inr (event\<lparr>statusOverride := Draft\<rparr>),
                 s\<lparr>events := event_save (event\<lparr>statusOverride := Draft\<rparr>) (events s)\<rparr>)"
    proof (cases "getEffectiveStatus event now = Published")
      case True
      show ?thesis
        by (subst editEvent_published [OF o True]) (simp add: allowed_def)
    next
      case False
      with st have "getEffectiveStatus event now = Ongoing
          \<or> getEffectiveStatus event now = Completed"
        by simp
      then show ?thesis
      proof
        assume "getEffectiveStatus event now = Ongoing"
        with org ev show ?thesis by (simp add: editEvent_def Let_def)
      next
        assume "getEffectiveStatus event now = Completed"
        with org ev show ?thesis by (simp add: editEvent_def Let_def)
      qed
    qed
    with d show ?thesis by simp
  qed
  have 2: "fst (editEvent s c k [U_isFormLocked False, U_customForm form] now)
              = Inr (event\<lparr>isFormLocked := False, customForm := form\<rparr>)
            \<and> findById (events (snd (editEvent s c k
                  [U_isFormLocked False, U_customForm form] now))) k
                = Some (event\<lparr>isFormLocked := False, customForm := form\<rparr>)
            \<and> \<not> locked (snd (editEvent s c k
                  [U_isFormLocked False, U_customForm form] now)) k cf"
    if d: "getEffectiveStatus event now = Draft" and v: "\<forall>f \<in> set form. label f \<noteq> []"
  proof -
    let ?e = "event\<lparr>isFormLocked := False, customForm := form\<rparr>"
    have "editEvent s c k [U_isFormLocked False, U_customForm form] now
            = (Inr ?e, s\<lparr>events := event_save ?e (events s)\<rparr>)"
      using d v org ev by (simp add: editEvent_def Let_def Object_assign_def)
    moreover have "findById (event_save ?e (events s)) k = Some ?e"
      using findById_event_save [OF ev, of ?e] k by simp
    ultimately show ?thesis by (simp add: locked_def)
  qed
  from 1 2 show ?thesis by blast
qed

theorem draft_edit_rewrites_locked_form_witness:
  "locked (step db0 (Register 10 1 [] 50 ''50'' ''AB'')) 1 []
   \<and> map isFormLocked (events (run db0
        [Register 10 1 [] 50 ''50'' ''AB'',
         EditEvent 20 1 [U_statusOverride Draft] 60,
         EditEvent 20 1 [U_isFormLocked False,
           U_customForm [\<lparr>label = ''Team'', fieldType = FText, isRequired = True,
                          options = []\<rparr>]] 70]))
       = [False, False]
   \<and> map customForm (events (run db0
        [Register 10 1 [] 50 ''50'' ''AB'',
         EditEvent 20 1 [U_statusOverride Draft] 60,
         EditEvent 20 1 [U_isFormLocked False,
           U_customForm [\<lparr>label = ''Team'', fieldType = FText, isRequired = True,
                          options = []\<rparr>]] 70]))
       = [[\<lparr>label = ''Team'', fieldType = FText, isRequired = True, options = []\<rparr>], []]"
proof -
  let ?reg = "(registration_defaults 1 10)\<lparr>rid := 1, ticketId := Some ''TKT-50-AB''\<rparr>"
  let ?e1 = "fest\<lparr>isFormLocked := True\<rparr>"
  let ?s1 = "db0\<lparr>events := [?e1, tshirts], registrations := [?reg]\<rparr>"
  let ?e2 = "?e1\<lparr>statusOverride := Draft\<rparr>"
  let ?s2 = "?s1\<lparr>events := event_save ?e2 (events ?s1)\<rparr>"
  let ?form = "[\<lparr>label = ''Team'', fieldType = FText, isRequired = True, options = []\<rparr>]"
  let ?e3 = "?e2\<lparr>isFormLocked := False, customForm := ?form\<rparr>"
  let ?s3 = "snd (editEvent ?s2 20 1 [U_isFormLocked False, U_customForm ?form] 70)"
  have r: "step db0 (Register 10 1 [] 50 ''50'' ''AB'') = ?s1"
    by (simp add: register_def db0_def findById_def findUser_def fest_def tshirts_def alice_def
        getEffectiveStatus_def eligibility_check_def findRegistration_def
        Registration_create_def index_event_participant_def index_ticketId_def fresh_id_def
        registration_defaults_def event_save_def generateTicketId_def Let_def)
  have 1: "locked ?s1 1 []"
    by (simp add: locked_def findById_def db0_def fest_def)
  have o1: "owns ?s1 20 1 ?e1"
    by (simp add: owns_def db0_def findOrganizer_def findById_def fest_def)
  have p1: "getEffectiveStatus ?e1 60 \<in> {Published, Ongoing, Completed}"
    by (simp add: getEffectiveStatus_def fest_def)
  from draft_edit_rewrites_locked_form [OF o1, where now = 60 and later = 70] p1
  have e1: "editEvent ?s1 20 1 [U_statusOverride Draft] 60 = (Inr ?e2, ?s2)"
    and d2: "getEffectiveStatus ?e2 70 = Draft"
    by blast+
  have o2: "owns ?s2 20 1 ?e2"
    by (simp add: owns_def db0_def findOrganizer_def findById_def event_save_def fest_def
        tshirts_def)
  have v: "\<forall>f \<in> set ?form. label f \<noteq> []" by simp
  from draft_edit_rewrites_locked_form [OF o2, where now = 70 and form = ?form] d2 v
  have e3: "findById (events ?s3) 1 = Some ?e3" by blast
  have ev3: "events ?s3 = [?e3, tshirts]"
    by (simp add: editEvent_def db0_def findOrganizer_def findById_def fest_def tshirts_def
        getEffectiveStatus_def Object_assign_def event_save_def Let_def)
  have run: "run db0 [Register 10 1 [] 50 ''50'' ''AB'',
         EditEvent 20 1 [U_statusOverride Draft] 60,
         EditEvent 20 1 [U_isFormLocked False, U_customForm ?form] 70] = ?s3"
    using r e1 by (simp add: run_def)
  from 1 r ev3 e3 show ?thesis
    unfolding run by (simp add: fest_def tshirts_def)
qed

end
